theory Spec2Isabelle
  imports Main "HOL-Library.Sublist"
begin

section \<open>Go values shared by the package\<close>

text \<open>
  A Go \<^verbatim>\<open>string\<close> is a sequence of bytes, here a \<^typ>\<open>string\<close> (a list of 8-bit
  characters); \<open>byte\<close> reads a character as a number. An \<^verbatim>\<open>error\<close> value is identified
  by the text \<^verbatim>\<open>err.Error()\<close> returns. A function returning \<^verbatim>\<open>(T, error)\<close> is a function
  into \<open>error + T\<close>: \<open>Inl\<close> is the non-nil error. Code that can panic returns a
  \<open>go_result\<close>.
\<close>

definition byte :: "char \<Rightarrow> nat" where
  "byte c = of_char c"

datatype error = Error string

fun Error_text :: "error \<Rightarrow> string" where
  "Error_text (Error msg) = msg"

datatype 'a go_result = Panic string | Return 'a

text \<open>
  A slice expression \<^verbatim>\<open>s[lo:hi]\<close> on a string panics unless \<open>0 \<le> lo \<le> hi \<le> len(s)\<close>.
\<close>

definition slice :: "string \<Rightarrow> int \<Rightarrow> int \<Rightarrow> string go_result" where
  "slice s lo hi =
     (if 0 \<le> lo \<and> lo \<le> hi \<and> hi \<le> int (length s)
      then Return (take (nat (hi - lo)) (drop (nat lo) s))
      else Panic ''runtime error: slice bounds out of range'')"

section \<open>The parts of net/http the handlers use\<close>

text \<open>
  The response writer of an exchange: the header map, whether the status line has been
  written, the status code and the bytes of the body so far. \<^verbatim>\<open>WriteHeader\<close> takes effect
  once; \<^verbatim>\<open>Write\<close> sends status 200 first when no status has been written.
\<close>

record ResponseWriter =
  HeaderMap :: "string \<rightharpoonup> string list"
  wroteHeader :: bool
  Code :: int
  Body :: string

definition Header_Set :: "(string \<rightharpoonup> string list) \<Rightarrow> string \<Rightarrow> string \<Rightarrow> (string \<rightharpoonup> string list)" where
  "Header_Set hdr k v = hdr(k \<mapsto> [v])"

definition Header_Add :: "(string \<rightharpoonup> string list) \<Rightarrow> string \<Rightarrow> string \<Rightarrow> (string \<rightharpoonup> string list)" where
  "Header_Add hdr k v = hdr(k \<mapsto> (case hdr k of None \<Rightarrow> [] | Some vs \<Rightarrow> vs) @ [v])"


definition WriteHeader :: "ResponseWriter \<Rightarrow> int \<Rightarrow> ResponseWriter" where
  "WriteHeader rw code = (if wroteHeader rw then rw else rw\<lparr>wroteHeader := True, Code := code\<rparr>)"

definition Write :: "ResponseWriter \<Rightarrow> string \<Rightarrow> ResponseWriter" where
  "Write rw data =
     (let rw1 = (if wroteHeader rw then rw else WriteHeader rw 200)
      in rw1\<lparr>Body := Body rw1 @ data\<rparr>)"

text \<open>\<^verbatim>\<open>fmt.Fprintln(w, s)\<close> writes the operand followed by a newline.\<close>

definition Fprintln :: "ResponseWriter \<Rightarrow> string \<Rightarrow> ResponseWriter" where
  "Fprintln rw s = Write rw (s @ ''\<newline>'')"

text \<open>
  \<^verbatim>\<open>http.Error(w, error, code)\<close>: two headers are set, the status is written, and the
  message is printed as a line.
\<close>

definition StatusOK :: int where
  "StatusOK = 200"

definition StatusInternalServerError :: int where
  "StatusInternalServerError = 500"

definition http_Error :: "ResponseWriter \<Rightarrow> string \<Rightarrow> int \<Rightarrow> ResponseWriter" where
  "http_Error rw err code =
     (let hdr = Header_Set (HeaderMap rw) ''Content-Type'' ''text/plain; charset=utf-8'';
          hdr = Header_Set hdr ''X-Content-Type-Options'' ''nosniff'';
          rw = WriteHeader (rw\<lparr>HeaderMap := hdr\<rparr>) code
      in Fprintln rw err)"

text \<open>
  A request, as far as these files read it: the method, the URL in its string form, the
  header map (keys in canonical form), the form as \<^verbatim>\<open>ParseMultipartForm\<close> leaves it in \<^verbatim>\<open>r.Form\<close>, and the value
  bound to \<^verbatim>\<open>clientKey\<close> in the request's context. A \<^verbatim>\<open>*Client\<close> is \<open>None\<close> (nil) or the
  address of a client; the outer \<open>option\<close> of \<open>ctx_clientKey\<close> says whether the key is bound.
\<close>

type_synonym Client_ptr = "nat option"

record Request =
  Method :: string
  ReqURL :: string
  Header :: "string \<rightharpoonup> string list"
  Form :: "string \<rightharpoonup> string list"
  ctx_clientKey :: "Client_ptr option"

definition FormValue :: "Request \<Rightarrow> string \<Rightarrow> string" where
  "FormValue req k = (case Form req k of Some (v # _) \<Rightarrow> v | _ \<Rightarrow> [])"

section \<open>http\_helpers.go: the client bound to a request\<close>





section \<open>handler.go: the client handler and single logout\<close>

text \<open>
  The client a handler serves: its ticket-keyed store and its cookie-keyed session store.
  The stores are interfaces whose implementations are not part of these files, so their
  states are type parameters and \<^verbatim>\<open>tickets.Delete\<close> is an argument: it takes the store and
  a key and returns the error (if any) with the store it leaves.
  \<^verbatim>\<open>parseLogoutRequest\<close> is an argument for the same reason.
\<close>

record ('t, 's) Client =
  tickets :: 't
  sessions :: 's

record logoutRequest =
  SessionIndex :: string


definition performSingleLogout ::
  "(string \<Rightarrow> error + logoutRequest) \<Rightarrow> ('t \<Rightarrow> string \<Rightarrow> error option \<times> 't) \<Rightarrow>
   ResponseWriter \<Rightarrow> Request \<Rightarrow> ('t, 's) Client \<Rightarrow> ResponseWriter \<times> ('t, 's) Client" where
  "performSingleLogout parseLogoutRequest tickets_Delete rw req cl =
     (let rawXML = FormValue req ''logoutRequest'' in
      case parseLogoutRequest rawXML of
        Inl err \<Rightarrow> (http_Error rw (Error_text err) StatusInternalServerError, cl)
      | Inr lr \<Rightarrow>
          (case tickets_Delete (tickets cl) (SessionIndex lr) of
             (Some err, ts) \<Rightarrow>
               (http_Error rw (Error_text err) StatusInternalServerError, cl\<lparr>tickets := ts\<rparr>)
           | (None, ts) \<Rightarrow>
               (Fprintln (WriteHeader rw StatusOK) ''OK'', cl\<lparr>tickets := ts\<rparr>)))"




section \<open>The parts of strings, strconv and path these files use\<close>

text \<open>
  \<^verbatim>\<open>strings.Cut(s, sep)\<close> for a one-byte separator: the text before the first separator,
  the text after it, and whether there is one. \<^verbatim>\<open>strings.Split\<close> and \<^verbatim>\<open>strings.Join\<close>
  likewise.
\<close>

definition Cut :: "string \<Rightarrow> char \<Rightarrow> string \<times> string \<times> bool" where
  "Cut s sep =
     (case dropWhile (\<lambda>c. c \<noteq> sep) s of
        [] \<Rightarrow> (s, [], False)
      | _ # after \<Rightarrow> (takeWhile (\<lambda>c. c \<noteq> sep) s, after, True))"

fun Split :: "string \<Rightarrow> char \<Rightarrow> string list" where
  "Split [] sep = [[]]"
| "Split (c # cs) sep =
     (if c = sep then [] # Split cs sep
      else (case Split cs sep of e # es \<Rightarrow> (c # e) # es | [] \<Rightarrow> [[c]]))"

fun Join_sep :: "string list \<Rightarrow> string \<Rightarrow> string" where
  "Join_sep [] sep = []"
| "Join_sep [e] sep = e"
| "Join_sep (e # es) sep = e @ sep @ Join_sep es sep"

definition LastIndexByte :: "string \<Rightarrow> char \<Rightarrow> nat option" where
  "LastIndexByte s c =
     (if c \<in> set s then Some (length s - 1 - length (takeWhile (\<lambda>x. x \<noteq> c) (rev s))) else None)"

text \<open>
  \<^verbatim>\<open>strings.Replace(s, old, new, 1)\<close> for a non-empty \<open>old\<close>: the first occurrence of
  \<open>old\<close> is replaced, and a string without one is returned as it is.
\<close>

fun Replace_first :: "string \<Rightarrow> string \<Rightarrow> string \<Rightarrow> string" where
  "Replace_first [] old new = []"
| "Replace_first (c # cs) old new =
     (if prefix old (c # cs) then new @ drop (length old) (c # cs)
      else c # Replace_first cs old new)"

text \<open>
  \<^verbatim>\<open>strconv.Quote\<close>, byte by byte: exact on ASCII text. (Go keeps a printable non-ASCII
  rune as it is; here every byte from 0x80 on is written as \<^verbatim>\<open>\x\<close> and two digits.)
\<close>

definition lowerhex :: "nat \<Rightarrow> char" where
  "lowerhex n = ''0123456789abcdef'' ! n"

definition Quote_byte :: "char \<Rightarrow> string" where
  "Quote_byte c =
     (if c = CHR 0x22 \<or> c = CHR 0x5C then [CHR 0x5C, c]
      else if 0x20 \<le> byte c \<and> byte c < 0x7F then [c]
      else if c = CHR 0x07 then [CHR 0x5C, CHR ''a'']
      else if c = CHR 0x08 then [CHR 0x5C, CHR ''b'']
      else if c = CHR 0x0C then [CHR 0x5C, CHR ''f'']
      else if c = CHR 0x0A then [CHR 0x5C, CHR ''n'']
      else if c = CHR 0x0D then [CHR 0x5C, CHR ''r'']
      else if c = CHR 0x09 then [CHR 0x5C, CHR ''t'']
      else if c = CHR 0x0B then [CHR 0x5C, CHR ''v'']
      else [CHR 0x5C, CHR ''x'', lowerhex (byte c div 16), lowerhex (byte c mod 16)])"

definition Quote :: "string \<Rightarrow> string" where
  "Quote s = CHR 0x22 # concat (map Quote_byte s) @ [CHR 0x22]"

text \<open>
  \<^verbatim>\<open>path.Clean\<close>, by its documented rules, on the elements between slashes: empty
  elements and \<^verbatim>\<open>.\<close> are dropped; \<^verbatim>\<open>..\<close> removes the element before it, is dropped at the
  root, and is kept at the start of a path that is not rooted. \<^verbatim>\<open>path.Join\<close> skips leading
  empty elements, joins the rest with slashes and cleans the result; it returns the empty
  string when every element is empty.
\<close>

fun Clean_elems :: "bool \<Rightarrow> string list \<Rightarrow> string list \<Rightarrow> string list" where
  "Clean_elems rooted [] out = out"
| "Clean_elems rooted (e # es) out =
     (if e = [] \<or> e = ''.'' then Clean_elems rooted es out
      else if e = ''..'' then
        (if out \<noteq> [] \<and> last out \<noteq> ''..'' then Clean_elems rooted es (butlast out)
         else if \<not> rooted then Clean_elems rooted es (out @ [''..''])
         else Clean_elems rooted es out)
      else Clean_elems rooted es (out @ [e]))"

definition path_Clean :: "string \<Rightarrow> string" where
  "path_Clean p =
     (if p = [] then ''.''
      else let rooted = (hd p = CHR ''/'');
               out = Clean_elems rooted (Split p (CHR ''/'')) []
           in if rooted then CHR ''/'' # Join_sep out ''/''
              else if out = [] then ''.''
              else Join_sep out ''/'')"

fun Join_buf :: "string \<Rightarrow> string list \<Rightarrow> string" where
  "Join_buf buf [] = buf"
| "Join_buf buf (e # es) =
     (if buf \<noteq> [] \<or> e \<noteq> []
      then Join_buf ((if buf \<noteq> [] then buf @ ''/'' else buf) @ e) es
      else Join_buf buf es)"

definition path_Join :: "string list \<Rightarrow> string" where
  "path_Join elem = (if concat elem = [] then [] else path_Clean (Join_buf [] elem))"

section \<open>The parts of net/url these files use\<close>

text \<open>
  The definitions follow package \<^verbatim>\<open>net/url\<close> as of Go 1.22. The errors of the package
  carry its message texts.
\<close>

definition EscapeError :: "string \<Rightarrow> error" where
  "EscapeError s = Error (''invalid URL escape '' @ Quote s)"

definition InvalidHostError :: "string \<Rightarrow> error" where
  "InvalidHostError s = Error (''invalid character '' @ Quote s @ '' in host name'')"

definition url_Error :: "string \<Rightarrow> string \<Rightarrow> error \<Rightarrow> error" where
  "url_Error op u err = Error (op @ '' '' @ Quote u @ '': '' @ Error_text err)"

text \<open>
  The encoding modes used here (\<^verbatim>\<open>encodePathSegment\<close> and \<^verbatim>\<open>encodeZone\<close> are not),
  \<^verbatim>\<open>shouldEscape\<close>, \<^verbatim>\<open>unescape\<close> and \<^verbatim>\<open>escape\<close>.
\<close>

datatype encoding = encodePath | encodeHost | encodeUserPassword | encodeQueryComponent | encodeFragment

definition isAlnum :: "char \<Rightarrow> bool" where
  "isAlnum c \<longleftrightarrow>
     (byte (CHR ''a'') \<le> byte c \<and> byte c \<le> byte (CHR ''z'')) \<or>
     (byte (CHR ''A'') \<le> byte c \<and> byte c \<le> byte (CHR ''Z'')) \<or>
     (byte (CHR ''0'') \<le> byte c \<and> byte c \<le> byte (CHR ''9''))"

definition shouldEscape :: "char \<Rightarrow> encoding \<Rightarrow> bool" where
  "shouldEscape c mode =
     (if isAlnum c then False
      else if mode = encodeHost \<and> c \<in> set (''!$&()*+,;=:[]<>'' @ [CHR 0x27, CHR 0x22]) then False
      else if c \<in> set ''-_.~'' then False
      else if c \<in> set ''$&+,/:;=?@'' then
        (case mode of
           encodePath \<Rightarrow> c = CHR ''?''
         | encodeUserPassword \<Rightarrow> c = CHR ''@'' \<or> c = CHR ''/'' \<or> c = CHR ''?'' \<or> c = CHR '':''
         | encodeQueryComponent \<Rightarrow> True
         | encodeFragment \<Rightarrow> False
         | encodeHost \<Rightarrow> True)
      else if mode = encodeFragment \<and> c \<in> set ''!()*'' then False
      else True)"

definition ishex :: "char \<Rightarrow> bool" where
  "ishex c \<longleftrightarrow>
     (byte (CHR ''0'') \<le> byte c \<and> byte c \<le> byte (CHR ''9'')) \<or>
     (byte (CHR ''a'') \<le> byte c \<and> byte c \<le> byte (CHR ''f'')) \<or>
     (byte (CHR ''A'') \<le> byte c \<and> byte c \<le> byte (CHR ''F''))"

definition unhex :: "char \<Rightarrow> nat" where
  "unhex c =
     (if byte (CHR ''0'') \<le> byte c \<and> byte c \<le> byte (CHR ''9'') then byte c - byte (CHR ''0'')
      else if byte (CHR ''a'') \<le> byte c \<and> byte c \<le> byte (CHR ''f'') then byte c - byte (CHR ''a'') + 10
      else if byte (CHR ''A'') \<le> byte c \<and> byte c \<le> byte (CHR ''F'') then byte c - byte (CHR ''A'') + 10
      else 0)"

definition upperhex :: "nat \<Rightarrow> char" where
  "upperhex n = ''0123456789ABCDEF'' ! n"

fun unescape :: "string \<Rightarrow> encoding \<Rightarrow> error + string" where
  "unescape [] mode = Inr []"
| "unescape (c # cs) mode =
     (if c = CHR ''%'' then
        (if length cs < 2 \<or> \<not> ishex (cs ! 0) \<or> \<not> ishex (cs ! 1)
         then Inl (EscapeError (take 3 (c # cs)))
         else if mode = encodeHost \<and> unhex (cs ! 0) < 8 \<and> take 3 (c # cs) \<noteq> ''%25''
         then Inl (EscapeError (take 3 (c # cs)))
         else (case unescape (drop 2 cs) mode of
                 Inl err \<Rightarrow> Inl err
               | Inr t \<Rightarrow> Inr (char_of (unhex (cs ! 0) * 16 + unhex (cs ! 1)) # t)))
      else if c = CHR ''+'' then
        (case unescape cs mode of
           Inl err \<Rightarrow> Inl err
         | Inr t \<Rightarrow> Inr ((if mode = encodeQueryComponent then CHR '' '' else CHR ''+'') # t))
      else if mode = encodeHost \<and> byte c < 0x80 \<and> shouldEscape c encodeHost
      then Inl (InvalidHostError [c])
      else (case unescape cs mode of
              Inl err \<Rightarrow> Inl err
            | Inr t \<Rightarrow> Inr (c # t)))"

fun escape :: "string \<Rightarrow> encoding \<Rightarrow> string" where
  "escape [] mode = []"
| "escape (c # cs) mode =
     (if c = CHR '' '' \<and> mode = encodeQueryComponent then CHR ''+'' # escape cs mode
      else if shouldEscape c mode
      then CHR ''%'' # upperhex (byte c div 16) # upperhex (byte c mod 16) # escape cs mode
      else c # escape cs mode)"

definition QueryEscape :: "string \<Rightarrow> string" where
  "QueryEscape s = escape s encodeQueryComponent"

definition QueryUnescape :: "string \<Rightarrow> error + string" where
  "QueryUnescape s = unescape s encodeQueryComponent"

text \<open>The \<^verbatim>\<open>URL\<close> structure; \<open>URL_User\<close> is its field \<^verbatim>\<open>User\<close>, nil when \<open>None\<close>.\<close>

record Userinfo =
  username :: string
  password :: string
  passwordSet :: bool

record URL =
  Scheme :: string
  Opaque :: string
  URL_User :: "Userinfo option"
  Host :: string
  Path :: string
  RawPath :: string
  OmitHost :: bool
  ForceQuery :: bool
  RawQuery :: string
  Fragment :: string
  RawFragment :: string

definition new_URL :: URL where
  "new_URL = \<lparr>Scheme = [], Opaque = [], URL_User = None, Host = [], Path = [], RawPath = [],
     OmitHost = False, ForceQuery = False, RawQuery = [], Fragment = [], RawFragment = []\<rparr>"

definition stringContainsCTLByte :: "string \<Rightarrow> bool" where
  "stringContainsCTLByte s = list_ex (\<lambda>b. byte b < 0x20 \<or> byte b = 0x7F) s"

definition isLetter :: "char \<Rightarrow> bool" where
  "isLetter c \<longleftrightarrow>
     (byte (CHR ''a'') \<le> byte c \<and> byte c \<le> byte (CHR ''z'')) \<or>
     (byte (CHR ''A'') \<le> byte c \<and> byte c \<le> byte (CHR ''Z''))"

text \<open>
  \<^verbatim>\<open>getScheme\<close> scans for a scheme followed by a colon; \<open>seen\<close> is the text scanned so far.
\<close>

fun getScheme_from :: "string \<Rightarrow> string \<Rightarrow> string \<Rightarrow> error + string \<times> string" where
  "getScheme_from rawURL seen [] = Inr ([], rawURL)"
| "getScheme_from rawURL seen (c # cs) =
     (if isLetter c then getScheme_from rawURL (seen @ [c]) cs
      else if (byte (CHR ''0'') \<le> byte c \<and> byte c \<le> byte (CHR ''9'')) \<or> c \<in> set ''+-.''
      then (if seen = [] then Inr ([], rawURL) else getScheme_from rawURL (seen @ [c]) cs)
      else if c = CHR '':''
      then (if seen = [] then Inl (Error ''missing protocol scheme'') else Inr (seen, cs))
      else Inr ([], rawURL))"

definition getScheme :: "string \<Rightarrow> error + string \<times> string" where
  "getScheme rawURL = getScheme_from rawURL [] rawURL"

definition ToLower :: "string \<Rightarrow> string" where
  "ToLower s =
     map (\<lambda>c. if byte (CHR ''A'') \<le> byte c \<and> byte c \<le> byte (CHR ''Z'')
               then char_of (byte c + 32) else c) s"

definition setPath :: "URL \<Rightarrow> string \<Rightarrow> error + URL" where
  "setPath u p =
     (case unescape p encodePath of
        Inl err \<Rightarrow> Inl err
      | Inr path \<Rightarrow> Inr (u\<lparr>Path := path, RawPath := (if p = escape path encodePath then [] else p)\<rparr>))"

definition setFragment :: "URL \<Rightarrow> string \<Rightarrow> error + URL" where
  "setFragment u f =
     (case unescape f encodeFragment of
        Inl err \<Rightarrow> Inl err
      | Inr frag \<Rightarrow>
          Inr (u\<lparr>Fragment := frag, RawFragment := (if f = escape frag encodeFragment then [] else f)\<rparr>))"

text \<open>
  \<^verbatim>\<open>parse(rawURL, viaRequest)\<close> with \<open>viaRequest\<close> false, which is how \<^verbatim>\<open>url.Parse\<close> calls
  it. The parser of the authority part (user information, host and port) is an
  argument: the references these files parse have no authority.
\<close>

definition parse :: "(string \<Rightarrow> error + Userinfo option \<times> string) \<Rightarrow> string \<Rightarrow> error + URL" where
  "parse parseAuthority rawURL =
     (if stringContainsCTLByte rawURL then Inl (Error ''net/url: invalid control character in URL'')
      else if rawURL = ''*'' then Inr (new_URL\<lparr>Path := ''*''\<rparr>)
      else case getScheme rawURL of
        Inl err \<Rightarrow> Inl err
      | Inr (scheme, rest0) \<Rightarrow>
          (let url = new_URL\<lparr>Scheme := ToLower scheme\<rparr>;
               forced = (rest0 \<noteq> [] \<and> last rest0 = CHR ''?'' \<and> count_list rest0 (CHR ''?'') = 1);
               url = (if forced then url\<lparr>ForceQuery := True\<rparr>
                      else url\<lparr>RawQuery := fst (snd (Cut rest0 (CHR ''?'')))\<rparr>);
               rest = (if forced then butlast rest0 else fst (Cut rest0 (CHR ''?'')))
           in if \<not> prefix ''/'' rest \<and> Scheme url \<noteq> [] then Inr (url\<lparr>Opaque := rest\<rparr>)
              else if \<not> prefix ''/'' rest \<and> CHR '':'' \<in> set (fst (Cut rest (CHR ''/'')))
              then Inl (Error ''first path segment in URL cannot contain colon'')
              else if (Scheme url \<noteq> [] \<or> \<not> prefix ''///'' rest) \<and> prefix ''//'' rest then
                (let authority = takeWhile (\<lambda>c. c \<noteq> CHR ''/'') (drop 2 rest);
                     rest = dropWhile (\<lambda>c. c \<noteq> CHR ''/'') (drop 2 rest)
                 in case parseAuthority authority of
                      Inl err \<Rightarrow> Inl err
                    | Inr (user, host) \<Rightarrow> setPath (url\<lparr>URL_User := user, Host := host\<rparr>) rest)
              else if Scheme url \<noteq> [] \<and> prefix ''/'' rest then setPath (url\<lparr>OmitHost := True\<rparr>) rest
              else setPath url rest))"

definition url_Parse :: "(string \<Rightarrow> error + Userinfo option \<times> string) \<Rightarrow> string \<Rightarrow> error + URL" where
  "url_Parse parseAuthority rawURL =
     (case Cut rawURL (CHR ''#'') of (u, frag, found) \<Rightarrow>
        (case parse parseAuthority u of
           Inl err \<Rightarrow> Inl (url_Error ''parse'' u err)
         | Inr url \<Rightarrow>
             if frag = [] then Inr url
             else (case setFragment url frag of
                     Inl err \<Rightarrow> Inl (url_Error ''parse'' rawURL err)
                   | Inr url \<Rightarrow> Inr url)))"

definition validEncoded :: "string \<Rightarrow> encoding \<Rightarrow> bool" where
  "validEncoded s mode =
     list_all (\<lambda>c. c \<in> set (''!$&()*+,;=:@[]%'' @ [CHR 0x27]) \<or> \<not> shouldEscape c mode) s"

definition EscapedPath :: "URL \<Rightarrow> string" where
  "EscapedPath u =
     (if RawPath u \<noteq> [] \<and> validEncoded (RawPath u) encodePath \<and>
         unescape (RawPath u) encodePath = Inr (Path u)
      then RawPath u
      else if Path u = ''*'' then ''*''
      else escape (Path u) encodePath)"

definition EscapedFragment :: "URL \<Rightarrow> string" where
  "EscapedFragment u =
     (if RawFragment u \<noteq> [] \<and> validEncoded (RawFragment u) encodeFragment \<and>
         unescape (RawFragment u) encodeFragment = Inr (Fragment u)
      then RawFragment u
      else escape (Fragment u) encodeFragment)"

text \<open>
  \<^verbatim>\<open>resolvePath\<close>: the reference is put after the directory of the base, and the loop
  removes dot segments from the result; \<open>dst\<close> is the text built so far (it starts with the
  slash) and \<open>first\<close> says that no element has been written after the slash.
\<close>

fun resolvePath_loop :: "string list \<Rightarrow> string \<Rightarrow> bool \<Rightarrow> string" where
  "resolvePath_loop [] dst first = dst"
| "resolvePath_loop (elem # remaining) dst first =
     (if elem = ''.'' then resolvePath_loop remaining dst False
      else if elem = ''..'' then
        (let str = drop 1 dst in
         case LastIndexByte str (CHR ''/'') of
           None \<Rightarrow> resolvePath_loop remaining ''/'' True
         | Some index \<Rightarrow> resolvePath_loop remaining (''/'' @ take index str) first)
      else resolvePath_loop remaining ((if \<not> first then dst @ ''/'' else dst) @ elem) False)"

definition resolvePath :: "string \<Rightarrow> string \<Rightarrow> string" where
  "resolvePath base ref =
     (let full =
        (if ref = [] then base
         else if hd ref \<noteq> CHR ''/'' then
           (case LastIndexByte base (CHR ''/'') of None \<Rightarrow> ref | Some i \<Rightarrow> take (i + 1) base @ ref)
         else ref)
      in if full = [] then []
         else let elems = Split full (CHR ''/'');
                  dst = resolvePath_loop elems ''/'' True;
                  dst = (if last elems = ''.'' \<or> last elems = ''..'' then dst @ ''/'' else dst)
              in if length dst > 1 \<and> dst ! 1 = CHR ''/'' then drop 1 dst else dst)"

text \<open>
  \<^verbatim>\<open>ResolveReference\<close> calls \<^verbatim>\<open>setPath\<close> and drops its error; the URL is then left as
  it was.
\<close>

definition setPath_dropping_error :: "URL \<Rightarrow> string \<Rightarrow> URL" where
  "setPath_dropping_error u p = (case setPath u p of Inl err \<Rightarrow> u | Inr u1 \<Rightarrow> u1)"

definition ResolveReference :: "URL \<Rightarrow> URL \<Rightarrow> URL" where
  "ResolveReference u ref =
     (let url = ref;
          url = (if Scheme ref = [] then url\<lparr>Scheme := Scheme u\<rparr> else url)
      in if Scheme ref \<noteq> [] \<or> Host ref \<noteq> [] \<or> URL_User ref \<noteq> None
         then setPath_dropping_error url (resolvePath (EscapedPath ref) [])
         else if Opaque ref \<noteq> [] then url\<lparr>URL_User := None, Host := [], Path := []\<rparr>
         else let url =
                (if Path ref = [] \<and> \<not> ForceQuery ref \<and> RawQuery ref = []
                 then (let url = url\<lparr>RawQuery := RawQuery u\<rparr>
                       in if Fragment ref = []
                          then url\<lparr>Fragment := Fragment u, RawFragment := RawFragment u\<rparr>
                          else url)
                 else url)
              in if Path ref = [] \<and> Opaque u \<noteq> []
                 then url\<lparr>Opaque := Opaque u, URL_User := None, Host := [], Path := []\<rparr>
                 else setPath_dropping_error (url\<lparr>Host := Host u, URL_User := URL_User u\<rparr>)
                        (resolvePath (EscapedPath u) (EscapedPath ref)))"

text \<open>The method \<^verbatim>\<open>(*URL).Parse\<close>: parse the reference, then resolve it against the URL.\<close>

definition URL_Parse :: "(string \<Rightarrow> error + Userinfo option \<times> string) \<Rightarrow> URL \<Rightarrow> string \<Rightarrow> error + URL" where
  "URL_Parse parseAuthority u ref =
     (case url_Parse parseAuthority ref of
        Inl err \<Rightarrow> Inl err
      | Inr refURL \<Rightarrow> Inr (ResolveReference u refURL))"

definition Userinfo_String :: "Userinfo \<Rightarrow> string" where
  "Userinfo_String ui =
     (let s = escape (username ui) encodeUserPassword
      in if passwordSet ui then s @ '':'' @ escape (password ui) encodeUserPassword else s)"

definition URL_String :: "URL \<Rightarrow> string" where
  "URL_String u =
     (let buf = (if Scheme u \<noteq> [] then Scheme u @ '':'' else []);
          buf =
            (if Opaque u \<noteq> [] then buf @ Opaque u
             else
               (let buf =
                  (if Scheme u \<noteq> [] \<or> Host u \<noteq> [] \<or> URL_User u \<noteq> None then
                     (if OmitHost u \<and> Host u = [] \<and> URL_User u = None then buf
                      else
                        (let buf = (if Host u \<noteq> [] \<or> Path u \<noteq> [] \<or> URL_User u \<noteq> None
                                    then buf @ ''//'' else buf);
                             buf = (case URL_User u of None \<Rightarrow> buf
                                    | Some ui \<Rightarrow> buf @ Userinfo_String ui @ ''@'')
                         in if Host u \<noteq> [] then buf @ escape (Host u) encodeHost else buf))
                   else buf);
                    path = EscapedPath u;
                    buf = (if path \<noteq> [] \<and> hd path \<noteq> CHR ''/'' \<and> Host u \<noteq> [] then buf @ ''/'' else buf);
                    buf = (if buf = [] \<and> CHR '':'' \<in> set (fst (Cut path (CHR ''/''))) then buf @ ''./'' else buf)
                in buf @ path));
          buf = (if ForceQuery u \<or> RawQuery u \<noteq> [] then buf @ ''?'' @ RawQuery u else buf)
      in if Fragment u \<noteq> [] then buf @ ''#'' @ EscapedFragment u else buf)"

text \<open>
  \<^verbatim>\<open>url.Values\<close> is a map from a key to its list of values: here a list of pairs with one
  entry per key. \<^verbatim>\<open>Encode\<close> writes the keys in sorted order (bytewise), each value as
  \<^verbatim>\<open>key=value\<close>, joined by \<^verbatim>\<open>&\<close>. \<^verbatim>\<open>(*URL).Query\<close> parses \<open>RawQuery\<close> and drops
  the parser's error: a pair with a semicolon or a malformed escape is skipped.
\<close>

type_synonym Values = "(string \<times> string list) list"

fun Values_Add :: "Values \<Rightarrow> string \<Rightarrow> string \<Rightarrow> Values" where
  "Values_Add [] k x = [(k, [x])]"
| "Values_Add ((k1, xs) # v) k x =
     (if k1 = k then (k1, xs @ [x]) # v else (k1, xs) # Values_Add v k x)"

definition Values_Del :: "Values \<Rightarrow> string \<Rightarrow> Values" where
  "Values_Del v k = filter (\<lambda>kv. fst kv \<noteq> k) v"

definition parseQuery_step :: "Values \<Rightarrow> string \<Rightarrow> Values" where
  "parseQuery_step m key0 =
     (if CHR '';'' \<in> set key0 then m
      else if key0 = [] then m
      else case Cut key0 (CHR ''='') of (key, val, found) \<Rightarrow>
        (case QueryUnescape key of
           Inl err \<Rightarrow> m
         | Inr key1 \<Rightarrow>
             (case QueryUnescape val of
                Inl err \<Rightarrow> m
              | Inr val1 \<Rightarrow> Values_Add m key1 val1)))"

definition URL_Query :: "URL \<Rightarrow> Values" where
  "URL_Query u = foldl parseQuery_step [] (Split (RawQuery u) (CHR ''&''))"

fun bytes_less :: "string \<Rightarrow> string \<Rightarrow> bool" where
  "bytes_less [] [] = False"
| "bytes_less [] (y # ys) = True"
| "bytes_less (x # xs) [] = False"
| "bytes_less (x # xs) (y # ys) = (byte x < byte y \<or> (x = y \<and> bytes_less xs ys))"

fun insert_key :: "string \<Rightarrow> string list \<Rightarrow> string list" where
  "insert_key k [] = [k]"
| "insert_key k (k1 # ks) = (if bytes_less k1 k then k1 # insert_key k ks else k # k1 # ks)"

definition sort_Strings :: "string list \<Rightarrow> string list" where
  "sort_Strings ks = foldr insert_key ks []"

definition Values_Encode :: "Values \<Rightarrow> string" where
  "Values_Encode v =
     Join_sep
       (concat (map (\<lambda>k. map (\<lambda>x. QueryEscape k @ ''='' @ QueryEscape x)
                            (case map_of v k of None \<Rightarrow> [] | Some xs \<Rightarrow> xs))
                    (sort_Strings (map fst v))))
       ''&''"

section \<open>service\_validate.go: ticket validation\<close>

text \<open>
  The result of a validation, with the fields these files read. \<open>Attributes\<close> is a map that
  may be nil (\<open>None\<close>); \<open>AuthenticationDate\<close> is a \<^verbatim>\<open>time.Time\<close>, counted from the zero time.
  Of the three results a validation returns, \<open>Inl err\<close> is \<^verbatim>\<open>(nil, err)\<close>, \<open>Inr None\<close> is
  \<^verbatim>\<open>(nil, nil)\<close> (not authenticated) and \<open>Inr (Some a)\<close> is \<^verbatim>\<open>(a, nil)\<close>.
\<close>

record AuthenticationResponse =
  User :: string
  Attributes :: "(string \<times> string list) list option"
  AuthenticationDate :: int
  IsNewLogin :: bool
  IsRememberedLogin :: bool
  MemberOf :: "string list"

text \<open>
  The answer of the HTTP client: \<open>Response_Body\<close> is what \<^verbatim>\<open>ioutil.ReadAll(resp.Body)\<close>
  returns, the bytes or an error.
\<close>

record Response =
  Status :: string
  StatusCode :: int
  Response_Body :: "error + string"

record ServiceTicketValidator =
  client :: "Request \<Rightarrow> error + Response"
  casURL :: URL
  validationType :: string

definition NewServiceTicketValidator ::
  "(Request \<Rightarrow> error + Response) \<Rightarrow> URL \<Rightarrow> string \<Rightarrow> ServiceTicketValidator" where
  "NewServiceTicketValidator cl u vt = \<lparr>client = cl, casURL = u, validationType = vt\<rparr>"

text \<open>
  Functions the validator calls and these files do not define: the authority parser of
  \<^verbatim>\<open>net/url\<close>, \<^verbatim>\<open>sanitisedURLString\<close>, \<^verbatim>\<open>http.NewRequest\<close> and \<^verbatim>\<open>ParseServiceResponse\<close>.
  The calls to \<^verbatim>\<open>glog\<close> only log and are left out.
\<close>

record externals =
  ext_parseAuthority :: "string \<Rightarrow> error + Userinfo option \<times> string"
  ext_sanitisedURLString :: "URL \<Rightarrow> string"
  ext_NewRequest :: "string \<Rightarrow> string \<Rightarrow> error + Request"
  ext_ParseServiceResponse :: "string \<Rightarrow> error + AuthenticationResponse option"

definition ServiceValidateUrl ::
  "externals \<Rightarrow> ServiceTicketValidator \<Rightarrow> URL \<Rightarrow> string \<Rightarrow> error + string" where
  "ServiceValidateUrl x validator serviceURL ticket =
     (case URL_Parse (ext_parseAuthority x) (casURL validator)
             (path_Join [Path (casURL validator), ''serviceValidate'']) of
        Inl err \<Rightarrow> Inl err
      | Inr u \<Rightarrow>
          (let q = URL_Query u;
               q = Values_Add q ''service'' (ext_sanitisedURLString x serviceURL);
               q = Values_Add q ''ticket'' ticket;
               u = u\<lparr>RawQuery := Values_Encode q\<rparr>
           in Inr (URL_String u)))"

definition ValidateUrl1 ::
  "externals \<Rightarrow> ServiceTicketValidator \<Rightarrow> URL \<Rightarrow> string \<Rightarrow> error + string" where
  "ValidateUrl1 x validator serviceURL ticket =
     (case URL_Parse (ext_parseAuthority x) (casURL validator)
             (path_Join [Path (casURL validator), ''validate'']) of
        Inl err \<Rightarrow> Inl err
      | Inr u \<Rightarrow>
          (let q = URL_Query u;
               q = Values_Add q ''service'' (ext_sanitisedURLString x serviceURL);
               q = Values_Add q ''ticket'' ticket;
               u = u\<lparr>RawQuery := Values_Encode q\<rparr>
           in Inr (URL_String u)))"

definition ValidateUrl3 ::
  "externals \<Rightarrow> ServiceTicketValidator \<Rightarrow> URL \<Rightarrow> string \<Rightarrow> error + string" where
  "ValidateUrl3 x validator serviceURL ticket =
     (case URL_Parse (ext_parseAuthority x) (casURL validator)
             (path_Join [Path (casURL validator), ''p3/serviceValidate'']) of
        Inl err \<Rightarrow> Inl err
      | Inr u \<Rightarrow>
          (let q = URL_Query u;
               q = Values_Add q ''service'' (ext_sanitisedURLString x serviceURL);
               q = Values_Add q ''ticket'' ticket;
               u = u\<lparr>RawQuery := Values_Encode q\<rparr>
           in Inr (URL_String u)))"

definition validateTicketCas2 ::
  "externals \<Rightarrow> ServiceTicketValidator \<Rightarrow> URL \<Rightarrow> string \<Rightarrow> error + AuthenticationResponse option" where
  "validateTicketCas2 x validator serviceURL ticket =
     (case ServiceValidateUrl x validator serviceURL ticket of
        Inl err \<Rightarrow> Inl err
      | Inr u \<Rightarrow>
     (case ext_NewRequest x ''GET'' u of
        Inl err \<Rightarrow> Inl err
      | Inr r \<Rightarrow>
     (let r = r\<lparr>Header := Header_Add (Header r) ''User-Agent'' ''Golang CAS client gopkg.in/cas''\<rparr> in
      case client validator r of
        Inl err \<Rightarrow> Inl err
      | Inr resp \<Rightarrow>
     (case Response_Body resp of
        Inl err \<Rightarrow> Inl err
      | Inr body \<Rightarrow>
          if StatusCode resp \<noteq> StatusOK
          then Inl (Error (''cas: validate ticket: '' @ body))
          else (case ext_ParseServiceResponse x body of
                  Inl err \<Rightarrow> Inl err
                | Inr success \<Rightarrow> Inr success)))))"

definition validateTicketCas1 ::
  "externals \<Rightarrow> ServiceTicketValidator \<Rightarrow> URL \<Rightarrow> string \<Rightarrow>
   (error + AuthenticationResponse option) go_result" where
  "validateTicketCas1 x validator serviceURL ticket =
     (case ValidateUrl1 x validator serviceURL ticket of
        Inl err \<Rightarrow> Return (Inl err)
      | Inr u \<Rightarrow>
     (case ext_NewRequest x ''GET'' u of
        Inl err \<Rightarrow> Return (Inl err)
      | Inr r \<Rightarrow>
     (let r = r\<lparr>Header := Header_Add (Header r) ''User-Agent'' ''Golang CAS client gopkg.in/cas''\<rparr> in
      case client validator r of
        Inl err \<Rightarrow> Return (Inl err)
      | Inr resp \<Rightarrow>
     (case Response_Body resp of
        Inl err \<Rightarrow> Return (Inl err)
      | Inr data \<Rightarrow>
          (let body = data in
           if StatusCode resp \<noteq> StatusOK
           then Return (Inl (Error (''cas: validate ticket: '' @ body)))
           else if body = ''no\<newline>\<newline>'' then Return (Inr None)
           else (case slice body 4 (int (length body) - 1) of
                   Panic msg \<Rightarrow> Panic msg
                 | Return user \<Rightarrow>
                     Return (Inr (Some \<lparr>User = user, Attributes = None, AuthenticationDate = 0,
                       IsNewLogin = False, IsRememberedLogin = False, MemberOf = []\<rparr>))))))))"

definition validateTicketCas3 ::
  "externals \<Rightarrow> ServiceTicketValidator \<Rightarrow> URL \<Rightarrow> string \<Rightarrow> error + AuthenticationResponse option" where
  "validateTicketCas3 x validator serviceURL ticket =
     (case ValidateUrl3 x validator serviceURL ticket of
        Inl err \<Rightarrow> Inl err
      | Inr u \<Rightarrow>
     (case ext_NewRequest x ''GET'' u of
        Inl err \<Rightarrow> Inl err
      | Inr r \<Rightarrow>
     (let r = r\<lparr>Header := Header_Add (Header r) ''User-Agent'' ''Golang CAS client gopkg.in/cas''\<rparr> in
      case client validator r of
        Inl err \<Rightarrow> Inl err
      | Inr resp \<Rightarrow>
     (case Response_Body resp of
        Inl err \<Rightarrow> Inl err
      | Inr data \<Rightarrow>
          (let body = data in
           if StatusCode resp \<noteq> StatusOK
           then Inl (Error (''cas: validate ticket: '' @ body))
           else if body = ''no\<newline>\<newline>'' then Inr None
           else (let body = Replace_first body ''[Asia/Shanghai]'' [] in
                 case ext_ParseServiceResponse x body of
                   Inl err \<Rightarrow> Inl err
                 | Inr success \<Rightarrow> Inr success))))))"

definition ValidateTicket ::
  "externals \<Rightarrow> ServiceTicketValidator \<Rightarrow> URL \<Rightarrow> string \<Rightarrow>
   (error + AuthenticationResponse option) go_result" where
  "ValidateTicket x validator serviceURL ticket =
     (if validationType validator = ''CAS1'' then validateTicketCas1 x validator serviceURL ticket
      else if validationType validator = ''CAS2'' then Return (validateTicketCas2 x validator serviceURL ticket)
      else Return (validateTicketCas3 x validator serviceURL ticket))"

section \<open>The sanitised service URL\<close>

text \<open>
  Modelled from the spec: \<^verbatim>\<open>sanitisedURL\<close>, the function behind \<^verbatim>\<open>sanitisedURLString\<close>, is
  not among the source files. The specification says of the \<^verbatim>\<open>service\<close> parameter that it
  is "the sanitized callback URL -- the ticket query parameter must be stripped from the
  service URL first, since the ticket is supplied separately": the query of the URL is
  read, the key \<^verbatim>\<open>ticket\<close> is deleted, and the query is encoded again.
\<close>

definition sanitisedURL :: "URL \<Rightarrow> URL" where
  "sanitisedURL unclean =
     unclean\<lparr>RawQuery := Values_Encode (Values_Del (URL_Query unclean) ''ticket'')\<rparr>"

text \<open>
  Modelled from the spec: \<^verbatim>\<open>sanitisedURLString\<close> is not among the source files either. It is
  "the sanitized service string used in a validation request": the string form of the
  sanitised URL.
\<close>

definition sanitisedURLString :: "URL \<Rightarrow> string" where
  "sanitisedURLString unclean = URL_String (sanitisedURL unclean)"

section \<open>Notions used in the statements\<close>

text \<open>
  The URLs the validator builds are stated for CAS server URLs of the usual shape: a
  scheme, a host whose characters \<^verbatim>\<open>net/url\<close> writes as they are, no user information,
  and a path that is empty or a sequence of plain segments, each after a slash. A plain
  segment is not empty, is neither \<^verbatim>\<open>.\<close> nor \<^verbatim>\<open>..\<close>, and consists of characters other
  than the slash that need no escaping in a path.
\<close>

definition plain_segment :: "string \<Rightarrow> bool" where
  "plain_segment e \<longleftrightarrow>
     e \<noteq> [] \<and> e \<noteq> ''.'' \<and> e \<noteq> ''..'' \<and>
     list_all (\<lambda>c. c \<noteq> CHR ''/'' \<and> \<not> shouldEscape c encodePath) e"

definition rooted_path :: "string list \<Rightarrow> string" where
  "rooted_path segs = concat (map (\<lambda>e. CHR ''/'' # e) segs)"

definition plain_host :: "string \<Rightarrow> bool" where
  "plain_host h \<longleftrightarrow> h \<noteq> [] \<and> list_all (\<lambda>c. \<not> shouldEscape c encodeHost) h"

text \<open>
  What resolving a plain path against the server URL \<open>c\<close> gives: the scheme, user and host
  of \<open>c\<close>, the path, and nothing else.
\<close>

definition resolved :: "URL \<Rightarrow> string \<Rightarrow> URL" where
  "resolved c p = \<lparr>Scheme = Scheme c, Opaque = [], URL_User = URL_User c, Host = Host c, Path = p,
     RawPath = [], OmitHost = False, ForceQuery = False, RawQuery = [], Fragment = [],
     RawFragment = []\<rparr>"

text \<open>One \<^verbatim>\<open>key=value\<close> item of an encoded query.\<close>

definition encode_pair :: "string \<times> string \<Rightarrow> string" where
  "encode_pair kx = QueryEscape (fst kx) @ ''='' @ QueryEscape (snd kx)"

text \<open>The pairs \<^verbatim>\<open>Encode\<close> writes, in the order it writes them.\<close>

definition sorted_pairs :: "Values \<Rightarrow> (string \<times> string) list" where
  "sorted_pairs v =
     concat (map (\<lambda>k. map (\<lambda>x. (k, x)) (case map_of v k of None \<Rightarrow> [] | Some xs \<Rightarrow> xs))
                 (sort_Strings (map fst v)))"

text \<open>
  The raw query of a URL given as a string, as \<^verbatim>\<open>url.Parse\<close> cuts it out: the text
  after the first question mark of what precedes the first hash sign.
\<close>

definition url_string_query :: "string \<Rightarrow> string" where
  "url_string_query str = fst (snd (Cut (fst (Cut str (CHR ''#''))) (CHR ''?'')))"

text \<open>The characters a scheme is made of: letters, digits, plus, minus and dot.\<close>

definition scheme_chars :: "string \<Rightarrow> bool" where
  "scheme_chars sch = list_all (\<lambda>c. isAlnum c \<or> c \<in> set ''+-.'') sch"

text \<open>A text with neither a question mark nor a hash sign.\<close>

definition no_separator :: "string \<Rightarrow> bool" where
  "no_separator s \<longleftrightarrow> CHR ''?'' \<notin> set s \<and> CHR ''#'' \<notin> set s"

text \<open>
  What \<^verbatim>\<open>String\<close> writes before the query of a URL that is not opaque: scheme, user
  information, host and path.
\<close>

definition URL_String_prefix :: "URL \<Rightarrow> string" where
  "URL_String_prefix u =
     (let buf = (if Scheme u \<noteq> [] then Scheme u @ '':'' else []);
          buf =
            (if Scheme u \<noteq> [] \<or> Host u \<noteq> [] \<or> URL_User u \<noteq> None then
               (if OmitHost u \<and> Host u = [] \<and> URL_User u = None then buf
                else
                  (let buf = (if Host u \<noteq> [] \<or> Path u \<noteq> [] \<or> URL_User u \<noteq> None
                              then buf @ ''//'' else buf);
                       buf = (case URL_User u of None \<Rightarrow> buf
                              | Some ui \<Rightarrow> buf @ Userinfo_String ui @ ''@'')
                   in if Host u \<noteq> [] then buf @ escape (Host u) encodeHost else buf))
             else buf);
          path = EscapedPath u;
          buf = (if path \<noteq> [] \<and> hd path \<noteq> CHR ''/'' \<and> Host u \<noteq> [] then buf @ ''/'' else buf);
          buf = (if buf = [] \<and> CHR '':'' \<in> set (fst (Cut path (CHR ''/''))) then buf @ ''./'' else buf)
      in buf @ path)"

section \<open>Examples\<close>

subsection \<open>Exchanges with a handler\<close>

definition fresh_writer :: ResponseWriter where
  "fresh_writer = \<lparr>HeaderMap = Map.empty, wroteHeader = False, Code = 0, Body = []\<rparr>"


text \<open>A single-logout notification as a CAS server posts it.\<close>

definition slo_request :: Request where
  "slo_request =
     \<lparr>Method = ''POST'', ReqURL = ''/'',
      Header = [''Content-Type'' \<mapsto> [''application/x-www-form-urlencoded'']],
      Form = [''logoutRequest'' \<mapsto> [''<samlp:LogoutRequest><samlp:SessionIndex>ST-123</samlp:SessionIndex></samlp:LogoutRequest>'']],
      ctx_clientKey = None\<rparr>"



text \<open>A parser that accepts every payload and one that rejects every payload.\<close>

definition parse_ST123 :: "string \<Rightarrow> error + logoutRequest" where
  "parse_ST123 raw = Inr \<lparr>SessionIndex = ''ST-123''\<rparr>"

definition parse_fails :: "string \<Rightarrow> error + logoutRequest" where
  "parse_fails raw = Inl (Error ''EOF'')"

text \<open>
  A ticket store for the examples: the list of tickets it holds. Deleting removes the
  key; the second store fails on every delete.
\<close>

definition list_Delete :: "string list \<Rightarrow> string \<Rightarrow> error option \<times> string list" where
  "list_Delete ts k = (None, removeAll k ts)"

definition failing_Delete :: "string list \<Rightarrow> string \<Rightarrow> error option \<times> string list" where
  "failing_Delete ts k = (Some (Error ''store closed''), ts)"

definition example_client :: "(string list, string list) Client" where
  "example_client = \<lparr>tickets = [''ST-123'', ''ST-9''], sessions = [''cookie-a'', ''ST-123'']\<rparr>"



subsection \<open>Validations\<close>

text \<open>
  The request as \<^verbatim>\<open>validateTicketCas1\<close>, \<^verbatim>\<open>validateTicketCas2\<close> and \<^verbatim>\<open>validateTicketCas3\<close> send
  it: with the User-Agent header added.
\<close>

abbreviation sent :: "Request \<Rightarrow> Request" where
  "sent r \<equiv> r\<lparr>Header := Header_Add (Header r) ''User-Agent'' ''Golang CAS client gopkg.in/cas''\<rparr>"

definition no_authority :: "string \<Rightarrow> error + Userinfo option \<times> string" where
  "no_authority a = Inl (Error ''authority not parsed'')"

definition plain_request :: "string \<Rightarrow> string \<Rightarrow> Request" where
  "plain_request m u =
     \<lparr>Method = m, ReqURL = u, Header = Map.empty, Form = Map.empty, ctx_clientKey = None\<rparr>"

definition plain_NewRequest :: "string \<Rightarrow> string \<Rightarrow> error + Request" where
  "plain_NewRequest m u = Inr (plain_request m u)"

text \<open>
  A response parser for the examples: it rejects a body with a bracket in it and
  otherwise returns a response whose principal is the text it was given.
\<close>

definition strict_parser :: "string \<Rightarrow> error + AuthenticationResponse option" where
  "strict_parser body =
     (if CHR ''['' \<in> set body then Inl (Error ''parsing time: extra text'')
      else Inr (Some \<lparr>User = body, Attributes = Some [], AuthenticationDate = 1,
                 IsNewLogin = False, IsRememberedLogin = False, MemberOf = []\<rparr>))"

definition example_externals :: externals where
  "example_externals =
     \<lparr>ext_parseAuthority = no_authority, ext_sanitisedURLString = URL_String,
      ext_NewRequest = plain_NewRequest, ext_ParseServiceResponse = strict_parser\<rparr>"

text \<open>A CAS server that answers every request with the given status and body.\<close>

definition answer :: "int \<Rightarrow> string \<Rightarrow> Response" where
  "answer code body = \<lparr>Status = [], StatusCode = code, Response_Body = Inr body\<rparr>"

definition server_answering :: "int \<Rightarrow> string \<Rightarrow> Request \<Rightarrow> error + Response" where
  "server_answering code body r = Inr (answer code body)"

definition example_cas :: URL where
  "example_cas = new_URL\<lparr>Scheme := ''https'', Host := ''sso.example.com'', Path := ''/cas''\<rparr>"

definition example_service :: URL where
  "example_service = new_URL\<lparr>Scheme := ''https'', Host := ''app.example.com'', Path := ''/home''\<rparr>"

definition example_validator :: "int \<Rightarrow> string \<Rightarrow> ServiceTicketValidator" where
  "example_validator code body =
     NewServiceTicketValidator (server_answering code body) example_cas ''CAS3''"

definition url1 :: string where
  "url1 = ''https://sso.example.com/cas/validate?service=https%3A%2F%2Fapp.example.com%2Fhome&ticket=ST-123''"

definition url2 :: string where
  "url2 = ''https://sso.example.com/cas/serviceValidate?service=https%3A%2F%2Fapp.example.com%2Fhome&ticket=ST-123''"

definition url3 :: string where
  "url3 = ''https://sso.example.com/cas/p3/serviceValidate?service=https%3A%2F%2Fapp.example.com%2Fhome&ticket=ST-123''"

definition paris_body :: string where
  "paris_body = ''<cas:authenticationDate>2024-05-01T10:15:30+02:00[Europe/Paris]</cas:authenticationDate>''"

definition shanghai_body :: string where
  "shanghai_body = ''<cas:authenticationDate>2024-05-01T10:15:30+08:00[Asia/Shanghai]</cas:authenticationDate>''"

subsection \<open>Server and service URLs\<close>

text \<open>
  The server URLs that \<^verbatim>\<open>url.Parse\<close> returns for \<^verbatim>\<open>https://sso.example.com/a%25b\<close> and for
  \<^verbatim>\<open>https://sso.example.com/a%2525b\<close>: the path of the first is \<^verbatim>\<open>/a%b\<close>, the path of
  the second \<^verbatim>\<open>/a%25b\<close>.
\<close>

definition percent_cas :: URL where
  "percent_cas = new_URL\<lparr>Scheme := ''https'', Host := ''sso.example.com'', Path := ''/a%b''\<rparr>"

definition twice_escaped_cas :: URL where
  "twice_escaped_cas =
     new_URL\<lparr>Scheme := ''https'', Host := ''sso.example.com'', Path := ''/a%25b''\<rparr>"

text \<open>
  A service URL that carries a ticket, the externals with the modelled sanitiser, and an
  authority parser that takes the whole authority as the host.
\<close>

definition ticket_service :: URL where
  "ticket_service =
     new_URL\<lparr>Scheme := ''https'', Host := ''app.example.com'', Path := ''/home'',
       RawQuery := ''ticket=ST-123&page=2''\<rparr>"

definition spec_externals :: externals where
  "spec_externals = example_externals\<lparr>ext_sanitisedURLString := sanitisedURLString\<rparr>"

definition host_only :: "string \<Rightarrow> error + Userinfo option \<times> string" where
  "host_only a = Inr (None, a)"

section \<open>Properties of the handlers\<close>

lemma http_Error_fresh:
  "\<not> wroteHeader rw \<Longrightarrow>
     Code (http_Error rw msg code) = code \<and>
     Body (http_Error rw msg code) = Body rw @ msg @ ''\<newline>'' \<and>
     wroteHeader (http_Error rw msg code)"
  by (simp add: http_Error_def Fprintln_def Write_def WriteHeader_def Header_Set_def Let_def)







text \<open>
  Claim C1. When the notification parses, the only store \<^verbatim>\<open>performSingleLogout\<close> touches is
  the ticket-keyed one: the client it leaves is the old client with \<open>tickets\<close> replaced by
  what \<^verbatim>\<open>tickets.Delete\<close> leaves for the key \<open>SessionIndex\<close>, and the cookie-keyed
  \<open>sessions\<close> store is the one it started with, for every parser, every store
  implementation and every store state.
\<close>

theorem performSingleLogout_deletes_ticket_only:
  assumes "parseLogoutRequest (FormValue req ''logoutRequest'') = Inr lr"
  shows "snd (performSingleLogout parseLogoutRequest tickets_Delete rw req cl) =
           cl\<lparr>tickets := snd (tickets_Delete (tickets cl) (SessionIndex lr))\<rparr> \<and>
         sessions (snd (performSingleLogout parseLogoutRequest tickets_Delete rw req cl)) =
           sessions cl"
proof -
  obtain e ts where d: "tickets_Delete (tickets cl) (SessionIndex lr) = (e, ts)"
    by (cases "tickets_Delete (tickets cl) (SessionIndex lr)")
  show ?thesis
    using assms d by (cases e) (simp_all add: performSingleLogout_def)
qed

theorem performSingleLogout_deletes_ticket_only_witness:
  "parse_ST123 (FormValue slo_request ''logoutRequest'') = Inr \<lparr>SessionIndex = ''ST-123''\<rparr> \<and>
   snd (performSingleLogout parse_ST123 list_Delete fresh_writer slo_request example_client) =
     \<lparr>tickets = [''ST-9''], sessions = [''cookie-a'', ''ST-123'']\<rparr>"
proof -
  have p: "parse_ST123 (FormValue slo_request ''logoutRequest'') = Inr \<lparr>SessionIndex = ''ST-123''\<rparr>"
    by (simp add: parse_ST123_def)
  show ?thesis
    using performSingleLogout_deletes_ticket_only
      [of parse_ST123 slo_request "\<lparr>SessionIndex = ''ST-123''\<rparr>" list_Delete fresh_writer example_client] p
    by (simp add: list_Delete_def example_client_def)
qed









text \<open>
  Claim C5, as the code has it. \<^verbatim>\<open>performSingleLogout\<close> prints its answers with
  \<^verbatim>\<open>fmt.Fprintln\<close>, so every body ends in a newline. On a response that has not been
  started: when the payload parses and the delete reports no error, the status is 200 and
  the body is the three bytes "OK" and newline; when the parser fails, or the delete
  reports an error, the status is 500 and the body is the error's text followed by a
  newline.
\<close>

theorem performSingleLogout_response:
  assumes "\<not> wroteHeader rw" and "Body rw = []"
  shows
   "(parseLogoutRequest (FormValue req ''logoutRequest'') = Inr lr \<and>
     fst (tickets_Delete (tickets cl) (SessionIndex lr)) = None \<longrightarrow>
       Code (fst (performSingleLogout parseLogoutRequest tickets_Delete rw req cl)) = 200 \<and>
       Body (fst (performSingleLogout parseLogoutRequest tickets_Delete rw req cl)) = ''OK\<newline>'') \<and>
    (parseLogoutRequest (FormValue req ''logoutRequest'') = Inl err \<longrightarrow>
       Code (fst (performSingleLogout parseLogoutRequest tickets_Delete rw req cl)) = 500 \<and>
       Body (fst (performSingleLogout parseLogoutRequest tickets_Delete rw req cl)) =
         Error_text err @ ''\<newline>'') \<and>
    (parseLogoutRequest (FormValue req ''logoutRequest'') = Inr lr \<and>
     fst (tickets_Delete (tickets cl) (SessionIndex lr)) = Some err \<longrightarrow>
       Code (fst (performSingleLogout parseLogoutRequest tickets_Delete rw req cl)) = 500 \<and>
       Body (fst (performSingleLogout parseLogoutRequest tickets_Delete rw req cl)) =
         Error_text err @ ''\<newline>'')"
proof -
  obtain e ts where d: "tickets_Delete (tickets cl) (SessionIndex lr) = (e, ts)"
    by (cases "tickets_Delete (tickets cl) (SessionIndex lr)")
  have ok: "Code (Fprintln (WriteHeader rw StatusOK) ''OK'') = 200 \<and>
            Body (Fprintln (WriteHeader rw StatusOK) ''OK'') = ''OK\<newline>''"
    using assms by (simp add: Fprintln_def Write_def WriteHeader_def StatusOK_def)
  have ko: "\<And>m. Code (http_Error rw m StatusInternalServerError) = 500 \<and>
            Body (http_Error rw m StatusInternalServerError) = m @ ''\<newline>''"
    using assms http_Error_fresh [of rw] by (simp add: StatusInternalServerError_def)
  show ?thesis
    using d ok ko by (auto simp add: performSingleLogout_def)
qed

theorem performSingleLogout_response_witness:
  "\<not> wroteHeader fresh_writer \<and> Body fresh_writer = [] \<and>
   Code (fst (performSingleLogout parse_ST123 list_Delete fresh_writer slo_request example_client)) = 200 \<and>
   Body (fst (performSingleLogout parse_ST123 list_Delete fresh_writer slo_request example_client)) = ''OK\<newline>'' \<and>
   Code (fst (performSingleLogout parse_fails list_Delete fresh_writer slo_request example_client)) = 500 \<and>
   Body (fst (performSingleLogout parse_fails list_Delete fresh_writer slo_request example_client)) = ''EOF\<newline>'' \<and>
   Code (fst (performSingleLogout parse_ST123 failing_Delete fresh_writer slo_request example_client)) = 500 \<and>
   Body (fst (performSingleLogout parse_ST123 failing_Delete fresh_writer slo_request example_client)) =
     ''store closed\<newline>''"
proof -
  have f: "\<not> wroteHeader fresh_writer" and b: "Body fresh_writer = []"
    by (simp_all add: fresh_writer_def)
  have p: "parse_ST123 (FormValue slo_request ''logoutRequest'') = Inr \<lparr>SessionIndex = ''ST-123''\<rparr>"
    by (simp add: parse_ST123_def)
  have q: "parse_fails (FormValue slo_request ''logoutRequest'') = Inl (Error ''EOF'')"
    by (simp add: parse_fails_def)
  have d1: "fst (list_Delete (tickets example_client) (SessionIndex \<lparr>SessionIndex = ''ST-123''\<rparr>)) = None"
    by (simp add: list_Delete_def)
  have d2: "fst (failing_Delete (tickets example_client) (SessionIndex \<lparr>SessionIndex = ''ST-123''\<rparr>)) =
      Some (Error ''store closed'')"
    by (simp add: failing_Delete_def)
  show ?thesis
    using performSingleLogout_response
        [OF f b, of parse_ST123 slo_request "\<lparr>SessionIndex = ''ST-123''\<rparr>" list_Delete example_client]
      performSingleLogout_response
        [OF f b, of parse_fails slo_request _ _ _ "Error ''EOF''"]
      performSingleLogout_response
        [OF f b, of parse_ST123 slo_request "\<lparr>SessionIndex = ''ST-123''\<rparr>" failing_Delete example_client
          "Error ''store closed''"]
      f b p q d1 d2
    by simp
qed

text \<open>
  The claim as the specification words it (body "OK") fails on the bytes: for a
  notification that parses and a delete that succeeds the body is not the two bytes "OK".
\<close>

theorem performSingleLogout_body_counterexample:
  "parse_ST123 (FormValue slo_request ''logoutRequest'') = Inr \<lparr>SessionIndex = ''ST-123''\<rparr> \<and>
   fst (list_Delete (tickets example_client) ''ST-123'') = None \<and>
   Body (fst (performSingleLogout parse_ST123 list_Delete fresh_writer slo_request example_client)) \<noteq> ''OK''"
  by (simp add: performSingleLogout_def parse_ST123_def list_Delete_def example_client_def
      fresh_writer_def Fprintln_def Write_def WriteHeader_def StatusOK_def)

section \<open>Properties of ticket validation\<close>

subsection \<open>From the request to the answer\<close>

lemma validateTicketCas1_answered:
  assumes "ValidateUrl1 x v s t = Inr u" and "ext_NewRequest x ''GET'' u = Inr r"
    and "client v (sent r) = Inr resp" and "Response_Body resp = Inr body"
  shows "validateTicketCas1 x v s t =
           (if StatusCode resp \<noteq> 200 then Return (Inl (Error (''cas: validate ticket: '' @ body)))
            else if body = ''no\<newline>\<newline>'' then Return (Inr None)
            else (case slice body 4 (int (length body) - 1) of
                    Panic msg \<Rightarrow> Panic msg
                  | Return user \<Rightarrow>
                      Return (Inr (Some \<lparr>User = user, Attributes = None, AuthenticationDate = 0,
                        IsNewLogin = False, IsRememberedLogin = False, MemberOf = []\<rparr>))))"
  using assms by (simp add: validateTicketCas1_def StatusOK_def)

lemma validateTicketCas2_answered:
  assumes "ServiceValidateUrl x v s t = Inr u" and "ext_NewRequest x ''GET'' u = Inr r"
    and "client v (sent r) = Inr resp" and "Response_Body resp = Inr body"
  shows "validateTicketCas2 x v s t =
           (if StatusCode resp \<noteq> 200 then Inl (Error (''cas: validate ticket: '' @ body))
            else ext_ParseServiceResponse x body)"
  using assms
  by (cases "ext_ParseServiceResponse x body") (simp_all add: validateTicketCas2_def StatusOK_def)

lemma validateTicketCas3_answered:
  assumes "ValidateUrl3 x v s t = Inr u" and "ext_NewRequest x ''GET'' u = Inr r"
    and "client v (sent r) = Inr resp" and "Response_Body resp = Inr body"
  shows "validateTicketCas3 x v s t =
           (if StatusCode resp \<noteq> 200 then Inl (Error (''cas: validate ticket: '' @ body))
            else if body = ''no\<newline>\<newline>'' then Inr None
            else ext_ParseServiceResponse x (Replace_first body ''[Asia/Shanghai]'' []))"
  using assms
  by (cases "ext_ParseServiceResponse x (Replace_first body ''[Asia/Shanghai]'' [])")
     (simp_all add: validateTicketCas3_def StatusOK_def)

lemma slice_tail:
  "5 \<le> length body \<Longrightarrow>
     slice body 4 (int (length body) - 1) = Return (take (length body - 5) (drop 4 body))"
  by (simp add: slice_def nat_diff_distrib' of_nat_diff)

lemma slice_short:
  "length body < 5 \<Longrightarrow>
     slice body 4 (int (length body) - 1) = Panic ''runtime error: slice bounds out of range''"
  by (simp add: slice_def)

subsection \<open>The examples, evaluated\<close>

lemma example_ValidateUrl1:
  "ValidateUrl1 example_externals (example_validator code body) example_service ''ST-123'' = Inr url1"
  by code_simp

lemma example_ServiceValidateUrl:
  "ServiceValidateUrl example_externals (example_validator code body) example_service ''ST-123'' = Inr url2"
  by code_simp

lemma example_ValidateUrl3:
  "ValidateUrl3 example_externals (example_validator code body) example_service ''ST-123'' = Inr url3"
  by code_simp

lemma example_NewRequest:
  "ext_NewRequest example_externals ''GET'' u = Inr (plain_request ''GET'' u)"
  by (simp add: example_externals_def plain_NewRequest_def)

lemma example_server_answers:
  "client (example_validator code body) r = Inr (answer code body)"
  by (simp add: example_validator_def NewServiceTicketValidator_def server_answering_def)

lemma answer_simps:
  "StatusCode (answer code body) = code" "Response_Body (answer code body) = Inr body"
  by (simp_all add: answer_def)

lemma example_validateTicketCas1:
  "validateTicketCas1 example_externals (example_validator code body) example_service ''ST-123'' =
     (if code \<noteq> 200 then Return (Inl (Error (''cas: validate ticket: '' @ body)))
      else if body = ''no\<newline>\<newline>'' then Return (Inr None)
      else (case slice body 4 (int (length body) - 1) of
              Panic msg \<Rightarrow> Panic msg
            | Return user \<Rightarrow>
                Return (Inr (Some \<lparr>User = user, Attributes = None, AuthenticationDate = 0,
                  IsNewLogin = False, IsRememberedLogin = False, MemberOf = []\<rparr>))))"
  using validateTicketCas1_answered
    [OF example_ValidateUrl1 example_NewRequest example_server_answers answer_simps(2)]
  by (simp add: answer_simps)

lemma example_validateTicketCas2:
  "validateTicketCas2 example_externals (example_validator code body) example_service ''ST-123'' =
     (if code \<noteq> 200 then Inl (Error (''cas: validate ticket: '' @ body))
      else strict_parser body)"
  using validateTicketCas2_answered
    [OF example_ServiceValidateUrl example_NewRequest example_server_answers answer_simps(2)]
  by (simp add: example_externals_def answer_simps)

lemma example_validateTicketCas3:
  "validateTicketCas3 example_externals (example_validator code body) example_service ''ST-123'' =
     (if code \<noteq> 200 then Inl (Error (''cas: validate ticket: '' @ body))
      else if body = ''no\<newline>\<newline>'' then Inr None
      else strict_parser (Replace_first body ''[Asia/Shanghai]'' []))"
  using validateTicketCas3_answered
    [OF example_ValidateUrl3 example_NewRequest example_server_answers answer_simps(2)]
  by (simp add: example_externals_def answer_simps)

subsection \<open>CAS 1.0 answers\<close>

text \<open>
  Claim C2. Let the CAS server answer the request of \<^verbatim>\<open>validateTicketCas1\<close> with status 200.
  If the body is "yes", newline, a name, newline, the call returns an authenticated result
  whose principal is the name (every other field at its zero value) and no error; no
  condition on the name is needed. If the body is exactly "no", newline, newline, the
  call returns neither a response nor an error.
\<close>

theorem validateTicketCas1_yes_and_no:
  assumes "ValidateUrl1 x v s t = Inr u" and "ext_NewRequest x ''GET'' u = Inr r"
    and "client v (sent r) = Inr resp" and "StatusCode resp = 200"
  shows "(Response_Body resp = Inr (''yes\<newline>'' @ name @ ''\<newline>'') \<longrightarrow>
            validateTicketCas1 x v s t =
              Return (Inr (Some \<lparr>User = name, Attributes = None, AuthenticationDate = 0,
                IsNewLogin = False, IsRememberedLogin = False, MemberOf = []\<rparr>))) \<and>
         (Response_Body resp = Inr ''no\<newline>\<newline>'' \<longrightarrow>
            validateTicketCas1 x v s t = Return (Inr None))"
proof (intro conjI impI)
  assume b: "Response_Body resp = Inr (''yes\<newline>'' @ name @ ''\<newline>'')"
  have "slice (''yes\<newline>'' @ name @ ''\<newline>'') 4 (int (length (''yes\<newline>'' @ name @ ''\<newline>'')) - 1) =
      Return name"
    using slice_tail [of "''yes\<newline>'' @ name @ ''\<newline>''"] by simp
  then show "validateTicketCas1 x v s t =
      Return (Inr (Some \<lparr>User = name, Attributes = None, AuthenticationDate = 0,
        IsNewLogin = False, IsRememberedLogin = False, MemberOf = []\<rparr>))"
    using validateTicketCas1_answered [OF assms(1-3) b] assms(4) by simp
next
  assume b: "Response_Body resp = Inr ''no\<newline>\<newline>''"
  show "validateTicketCas1 x v s t = Return (Inr None)"
    using validateTicketCas1_answered [OF assms(1-3) b] assms(4) by simp
qed

theorem validateTicketCas1_yes_and_no_witness:
  "validateTicketCas1 example_externals (example_validator 200 ''yes\<newline>alice\<newline>'') example_service ''ST-123'' =
     Return (Inr (Some \<lparr>User = ''alice'', Attributes = None, AuthenticationDate = 0,
       IsNewLogin = False, IsRememberedLogin = False, MemberOf = []\<rparr>)) \<and>
   validateTicketCas1 example_externals (example_validator 200 ''no\<newline>\<newline>'') example_service ''ST-123'' =
     Return (Inr None)"
proof -
  have yes: "Response_Body (answer 200 ''yes\<newline>alice\<newline>'') = Inr (''yes\<newline>'' @ ''alice'' @ ''\<newline>'')"
    by (simp add: answer_simps)
  note w = validateTicketCas1_yes_and_no
    [OF example_ValidateUrl1 example_NewRequest example_server_answers answer_simps(1)]
  have 1: "validateTicketCas1 example_externals (example_validator 200 ''yes\<newline>alice\<newline>'') example_service ''ST-123'' =
     Return (Inr (Some \<lparr>User = ''alice'', Attributes = None, AuthenticationDate = 0,
       IsNewLogin = False, IsRememberedLogin = False, MemberOf = []\<rparr>))"
    by (rule w [THEN conjunct1, THEN mp]) (rule yes)
  have 2: "validateTicketCas1 example_externals (example_validator 200 ''no\<newline>\<newline>'') example_service ''ST-123'' =
     Return (Inr None)"
    by (rule w [THEN conjunct2, THEN mp]) (rule answer_simps)
  show ?thesis
    using 1 2 by (rule conjI)
qed

text \<open>
  Claim C10. On a 200 answer \<^verbatim>\<open>validateTicketCas1\<close> takes \<^verbatim>\<open>body[4 : len(body)-1]\<close> without
  looking at the first line. A body of fewer than five bytes other than "no", newline,
  newline makes the slice expression panic; every body of five bytes or more yields an
  authenticated result whose principal is the body without its first four bytes and its
  last one, whatever the first line says.
\<close>

theorem validateTicketCas1_unchecked_slice:
  assumes "ValidateUrl1 x v s t = Inr u" and "ext_NewRequest x ''GET'' u = Inr r"
    and "client v (sent r) = Inr resp" and "StatusCode resp = 200"
    and "Response_Body resp = Inr body"
  shows "(length body < 5 \<and> body \<noteq> ''no\<newline>\<newline>'' \<longrightarrow>
            validateTicketCas1 x v s t = Panic ''runtime error: slice bounds out of range'') \<and>
         (5 \<le> length body \<longrightarrow>
            validateTicketCas1 x v s t =
              Return (Inr (Some \<lparr>User = take (length body - 5) (drop 4 body), Attributes = None,
                AuthenticationDate = 0, IsNewLogin = False, IsRememberedLogin = False,
                MemberOf = []\<rparr>)))"
proof (intro conjI impI)
  assume "length body < 5 \<and> body \<noteq> ''no\<newline>\<newline>''"
  then show "validateTicketCas1 x v s t = Panic ''runtime error: slice bounds out of range''"
    using validateTicketCas1_answered [OF assms(1-3) assms(5)] assms(4) slice_short [of body]
    by simp
next
  assume l: "5 \<le> length body"
  then have "body \<noteq> ''no\<newline>\<newline>''"
    by auto
  then show "validateTicketCas1 x v s t =
      Return (Inr (Some \<lparr>User = take (length body - 5) (drop 4 body), Attributes = None,
        AuthenticationDate = 0, IsNewLogin = False, IsRememberedLogin = False, MemberOf = []\<rparr>))"
    using validateTicketCas1_answered [OF assms(1-3) assms(5)] assms(4) slice_tail [OF l]
    by simp
qed

theorem validateTicketCas1_unchecked_slice_witness:
  "validateTicketCas1 example_externals (example_validator 200 []) example_service ''ST-123'' =
     Panic ''runtime error: slice bounds out of range'' \<and>
   validateTicketCas1 example_externals (example_validator 200 ''no\<newline>bob\<newline>'') example_service ''ST-123'' =
     Return (Inr (Some \<lparr>User = ''ob'', Attributes = None, AuthenticationDate = 0,
       IsNewLogin = False, IsRememberedLogin = False, MemberOf = []\<rparr>))"
proof -
  note w = validateTicketCas1_unchecked_slice
    [OF example_ValidateUrl1 example_NewRequest example_server_answers answer_simps]
  have 1: "validateTicketCas1 example_externals (example_validator 200 []) example_service ''ST-123'' =
     Panic ''runtime error: slice bounds out of range''"
    by (rule w [THEN conjunct1, THEN mp]) simp
  have "validateTicketCas1 example_externals (example_validator 200 ''no\<newline>bob\<newline>'') example_service ''ST-123'' =
     Return (Inr (Some \<lparr>User = take (length ''no\<newline>bob\<newline>'' - 5) (drop 4 ''no\<newline>bob\<newline>''),
       Attributes = None, AuthenticationDate = 0,
       IsNewLogin = False, IsRememberedLogin = False, MemberOf = []\<rparr>))"
    by (rule w [THEN conjunct2, THEN mp]) simp
  then have 2: "validateTicketCas1 example_externals (example_validator 200 ''no\<newline>bob\<newline>'') example_service ''ST-123'' =
     Return (Inr (Some \<lparr>User = ''ob'', Attributes = None, AuthenticationDate = 0,
       IsNewLogin = False, IsRememberedLogin = False, MemberOf = []\<rparr>))"
    by simp
  show ?thesis
    using 1 2 by (rule conjI)
qed

subsection \<open>The status of the answer\<close>

text \<open>
  Claim C3, as the code has it. The three validations compare the status with 200, not
  with the 2xx range. When the server's answer has been read: a status other than 200
  gives the error "cas: validate ticket: " followed by the raw body; with status 200,
  \<^verbatim>\<open>validateTicketCas2\<close> returns what \<^verbatim>\<open>ParseServiceResponse\<close> returns for the body,
  \<^verbatim>\<open>validateTicketCas3\<close> returns no response and no error for the body "no", newline,
  newline and otherwise what \<^verbatim>\<open>ParseServiceResponse\<close> returns for the body without its
  first "[Asia/Shanghai]", and \<^verbatim>\<open>validateTicketCas1\<close> reads the body itself.
\<close>

theorem validation_by_status:
  "(ValidateUrl1 x v s t = Inr u1 \<and> ext_NewRequest x ''GET'' u1 = Inr r1 \<and>
    client v (sent r1) = Inr resp1 \<and> Response_Body resp1 = Inr body1 \<longrightarrow>
      (StatusCode resp1 \<noteq> 200 \<longrightarrow>
         validateTicketCas1 x v s t = Return (Inl (Error (''cas: validate ticket: '' @ body1)))) \<and>
      (StatusCode resp1 = 200 \<longrightarrow>
         validateTicketCas1 x v s t =
           (if body1 = ''no\<newline>\<newline>'' then Return (Inr None)
            else (case slice body1 4 (int (length body1) - 1) of
                    Panic msg \<Rightarrow> Panic msg
                  | Return user \<Rightarrow>
                      Return (Inr (Some \<lparr>User = user, Attributes = None, AuthenticationDate = 0,
                        IsNewLogin = False, IsRememberedLogin = False, MemberOf = []\<rparr>)))))) \<and>
   (ServiceValidateUrl x v s t = Inr u2 \<and> ext_NewRequest x ''GET'' u2 = Inr r2 \<and>
    client v (sent r2) = Inr resp2 \<and> Response_Body resp2 = Inr body2 \<longrightarrow>
      (StatusCode resp2 \<noteq> 200 \<longrightarrow>
         validateTicketCas2 x v s t = Inl (Error (''cas: validate ticket: '' @ body2))) \<and>
      (StatusCode resp2 = 200 \<longrightarrow>
         validateTicketCas2 x v s t = ext_ParseServiceResponse x body2)) \<and>
   (ValidateUrl3 x v s t = Inr u3 \<and> ext_NewRequest x ''GET'' u3 = Inr r3 \<and>
    client v (sent r3) = Inr resp3 \<and> Response_Body resp3 = Inr body3 \<longrightarrow>
      (StatusCode resp3 \<noteq> 200 \<longrightarrow>
         validateTicketCas3 x v s t = Inl (Error (''cas: validate ticket: '' @ body3))) \<and>
      (StatusCode resp3 = 200 \<longrightarrow>
         validateTicketCas3 x v s t =
           (if body3 = ''no\<newline>\<newline>'' then Inr None
            else ext_ParseServiceResponse x (Replace_first body3 ''[Asia/Shanghai]'' []))))"
proof (intro conjI impI)
  assume h: "ValidateUrl1 x v s t = Inr u1 \<and> ext_NewRequest x ''GET'' u1 = Inr r1 \<and>
    client v (sent r1) = Inr resp1 \<and> Response_Body resp1 = Inr body1"
  note a = validateTicketCas1_answered [of x v s t u1 r1 resp1 body1]
  {
    assume "StatusCode resp1 \<noteq> 200"
    then show "validateTicketCas1 x v s t = Return (Inl (Error (''cas: validate ticket: '' @ body1)))"
      using a h by simp
  }
  {
    assume "StatusCode resp1 = 200"
    then show "validateTicketCas1 x v s t =
           (if body1 = ''no\<newline>\<newline>'' then Return (Inr None)
            else (case slice body1 4 (int (length body1) - 1) of
                    Panic msg \<Rightarrow> Panic msg
                  | Return user \<Rightarrow>
                      Return (Inr (Some \<lparr>User = user, Attributes = None, AuthenticationDate = 0,
                        IsNewLogin = False, IsRememberedLogin = False, MemberOf = []\<rparr>))))"
      using a h by simp
  }
next
  assume h: "ServiceValidateUrl x v s t = Inr u2 \<and> ext_NewRequest x ''GET'' u2 = Inr r2 \<and>
    client v (sent r2) = Inr resp2 \<and> Response_Body resp2 = Inr body2"
  note a = validateTicketCas2_answered [of x v s t u2 r2 resp2 body2]
  {
    assume "StatusCode resp2 \<noteq> 200"
    then show "validateTicketCas2 x v s t = Inl (Error (''cas: validate ticket: '' @ body2))"
      using a h by simp
  }
  {
    assume "StatusCode resp2 = 200"
    then show "validateTicketCas2 x v s t = ext_ParseServiceResponse x body2"
      using a h by simp
  }
next
  assume h: "ValidateUrl3 x v s t = Inr u3 \<and> ext_NewRequest x ''GET'' u3 = Inr r3 \<and>
    client v (sent r3) = Inr resp3 \<and> Response_Body resp3 = Inr body3"
  note a = validateTicketCas3_answered [of x v s t u3 r3 resp3 body3]
  {
    assume "StatusCode resp3 \<noteq> 200"
    then show "validateTicketCas3 x v s t = Inl (Error (''cas: validate ticket: '' @ body3))"
      using a h by simp
  }
  {
    assume "StatusCode resp3 = 200"
    then show "validateTicketCas3 x v s t =
           (if body3 = ''no\<newline>\<newline>'' then Inr None
            else ext_ParseServiceResponse x (Replace_first body3 ''[Asia/Shanghai]'' []))"
      using a h by simp
  }
qed

theorem validation_by_status_witness:
  "validateTicketCas1 example_externals (example_validator 500 ''oops'') example_service ''ST-123'' =
     Return (Inl (Error ''cas: validate ticket: oops'')) \<and>
   validateTicketCas2 example_externals (example_validator 500 ''oops'') example_service ''ST-123'' =
     Inl (Error ''cas: validate ticket: oops'') \<and>
   validateTicketCas3 example_externals (example_validator 500 ''oops'') example_service ''ST-123'' =
     Inl (Error ''cas: validate ticket: oops'') \<and>
   validateTicketCas1 example_externals (example_validator 200 ''no\<newline>\<newline>'') example_service ''ST-123'' =
     Return (Inr None) \<and>
   validateTicketCas2 example_externals (example_validator 200 ''no\<newline>\<newline>'') example_service ''ST-123'' =
     strict_parser ''no\<newline>\<newline>'' \<and>
   validateTicketCas3 example_externals (example_validator 200 ''no\<newline>\<newline>'') example_service ''ST-123'' =
     Inr None"
proof -
  have p: "ext_ParseServiceResponse example_externals = strict_parser"
    by (simp add: example_externals_def)
  have h1: "\<And>code body.
      ValidateUrl1 example_externals (example_validator code body) example_service ''ST-123'' = Inr url1 \<and>
      ext_NewRequest example_externals ''GET'' url1 = Inr (plain_request ''GET'' url1) \<and>
      client (example_validator code body) (sent (plain_request ''GET'' url1)) = Inr (answer code body) \<and>
      Response_Body (answer code body) = Inr body"
    using example_ValidateUrl1 example_NewRequest example_server_answers answer_simps(2) by blast
  have h2: "\<And>code body.
      ServiceValidateUrl example_externals (example_validator code body) example_service ''ST-123'' = Inr url2 \<and>
      ext_NewRequest example_externals ''GET'' url2 = Inr (plain_request ''GET'' url2) \<and>
      client (example_validator code body) (sent (plain_request ''GET'' url2)) = Inr (answer code body) \<and>
      Response_Body (answer code body) = Inr body"
    using example_ServiceValidateUrl example_NewRequest example_server_answers answer_simps(2) by blast
  have h3: "\<And>code body.
      ValidateUrl3 example_externals (example_validator code body) example_service ''ST-123'' = Inr url3 \<and>
      ext_NewRequest example_externals ''GET'' url3 = Inr (plain_request ''GET'' url3) \<and>
      client (example_validator code body) (sent (plain_request ''GET'' url3)) = Inr (answer code body) \<and>
      Response_Body (answer code body) = Inr body"
    using example_ValidateUrl3 example_NewRequest example_server_answers answer_simps(2) by blast
  have ko: "StatusCode (answer 500 ''oops'') \<noteq> 200"
    by (simp add: answer_simps)
  have ok: "StatusCode (answer 200 ''no\<newline>\<newline>'') = 200"
    by (simp add: answer_simps)
  note w = validation_by_status
    [where x = example_externals and s = example_service and t = "''ST-123''"
       and ?u1.0 = url1 and ?u2.0 = url2 and ?u3.0 = url3
       and ?r1.0 = "plain_request ''GET'' url1" and ?r2.0 = "plain_request ''GET'' url2"
       and ?r3.0 = "plain_request ''GET'' url3"]
  note w1 = w [THEN conjunct1, THEN mp, OF h1]
  note w2 = w [THEN conjunct2, THEN conjunct1, THEN mp, OF h2]
  note w3 = w [THEN conjunct2, THEN conjunct2, THEN mp, OF h3]
  have a1: "validateTicketCas1 example_externals (example_validator 500 ''oops'') example_service ''ST-123'' =
     Return (Inl (Error ''cas: validate ticket: oops''))"
    using w1 [THEN conjunct1, THEN mp, OF ko] by simp
  have a2: "validateTicketCas2 example_externals (example_validator 500 ''oops'') example_service ''ST-123'' =
     Inl (Error ''cas: validate ticket: oops'')"
    using w2 [THEN conjunct1, THEN mp, OF ko] by simp
  have a3: "validateTicketCas3 example_externals (example_validator 500 ''oops'') example_service ''ST-123'' =
     Inl (Error ''cas: validate ticket: oops'')"
    using w3 [THEN conjunct1, THEN mp, OF ko] by simp
  have b1: "validateTicketCas1 example_externals (example_validator 200 ''no\<newline>\<newline>'') example_service ''ST-123'' =
     Return (Inr None)"
    using w1 [THEN conjunct2, THEN mp, OF ok] by simp
  have b2: "validateTicketCas2 example_externals (example_validator 200 ''no\<newline>\<newline>'') example_service ''ST-123'' =
     strict_parser ''no\<newline>\<newline>''"
    using w2 [THEN conjunct2, THEN mp, OF ok] p by simp
  have b3: "validateTicketCas3 example_externals (example_validator 200 ''no\<newline>\<newline>'') example_service ''ST-123'' =
     Inr None"
    using w3 [THEN conjunct2, THEN mp, OF ok] by simp
  show ?thesis
    using a1 a2 a3 b1 b2 b3 by (intro conjI)
qed

text \<open>
  The claim as the specification words it fails for a 2xx status other than 200: on
  status 203 \<^verbatim>\<open>validateTicketCas2\<close> returns the error, not what the parser returns for
  the body.
\<close>

theorem validation_2xx_counterexample:
  "validateTicketCas2 example_externals (example_validator 203 ''alice'') example_service ''ST-123'' =
     Inl (Error ''cas: validate ticket: alice'') \<and>
   ext_ParseServiceResponse example_externals ''alice'' =
     Inr (Some \<lparr>User = ''alice'', Attributes = Some [], AuthenticationDate = 1,
       IsNewLogin = False, IsRememberedLogin = False, MemberOf = []\<rparr>)"
  using example_validateTicketCas2 [of 203 "''alice''"]
  by (simp add: example_externals_def strict_parser_def)

subsection \<open>The time zone name in a CAS 3.0 answer\<close>

lemma Replace_first_absent:
  "\<not> sublist old s \<Longrightarrow> Replace_first s old new = s"
proof (induction s)
  case Nil
  then show ?case by simp
next
  case (Cons c cs)
  have 1: "\<not> prefix old (c # cs)" and 2: "\<not> sublist old cs"
    using Cons.prems by (simp_all add: sublist_Cons_right)
  have "Replace_first cs old new = cs"
    using 2 by (rule Cons.IH)
  then show ?case
    using 1 by (simp only: Replace_first.simps if_False)
qed

lemma Replace_first_at_bracket:
  "CHR ''['' \<notin> set a \<Longrightarrow> Replace_first (a @ CHR ''['' # old @ b) (CHR ''['' # old) new = a @ new @ b"
proof (induction a)
  case Nil
  then show ?case by simp
next
  case (Cons c cs)
  then have "c \<noteq> CHR ''[''"
    by auto
  then show ?case
    using Cons by simp
qed

text \<open>
  Claim C8, as the code has it. \<^verbatim>\<open>validateTicketCas3\<close> does not look for a bracketed zone
  name: on a 200 answer other than "no", newline, newline it removes the first occurrence
  of the literal text "[Asia/Shanghai]" from the body and returns what
  \<^verbatim>\<open>ParseServiceResponse\<close> returns for that text, an error included. A body in which
  "[Asia/Shanghai]" follows text without a bracket loses exactly that occurrence; a body
  that does not contain "[Asia/Shanghai]" reaches the parser unchanged, whatever other
  zone name it carries.
\<close>

theorem validateTicketCas3_strips_literal:
  "(ValidateUrl3 x v s t = Inr u \<and> ext_NewRequest x ''GET'' u = Inr r \<and>
    client v (sent r) = Inr resp \<and> Response_Body resp = Inr body \<and>
    StatusCode resp = 200 \<and> body \<noteq> ''no\<newline>\<newline>'' \<longrightarrow>
      validateTicketCas3 x v s t =
        ext_ParseServiceResponse x (Replace_first body ''[Asia/Shanghai]'' [])) \<and>
   (CHR ''['' \<notin> set a \<longrightarrow>
      Replace_first (a @ ''[Asia/Shanghai]'' @ b) ''[Asia/Shanghai]'' [] = a @ b) \<and>
   (\<not> sublist ''[Asia/Shanghai]'' other \<longrightarrow>
      Replace_first other ''[Asia/Shanghai]'' [] = other)"
proof (intro conjI impI)
  assume "ValidateUrl3 x v s t = Inr u \<and> ext_NewRequest x ''GET'' u = Inr r \<and>
    client v (sent r) = Inr resp \<and> Response_Body resp = Inr body \<and>
    StatusCode resp = 200 \<and> body \<noteq> ''no\<newline>\<newline>''"
  then show "validateTicketCas3 x v s t =
      ext_ParseServiceResponse x (Replace_first body ''[Asia/Shanghai]'' [])"
    using validateTicketCas3_answered [of x v s t u r resp body] by simp
next
  assume "CHR ''['' \<notin> set a"
  then show "Replace_first (a @ ''[Asia/Shanghai]'' @ b) ''[Asia/Shanghai]'' [] = a @ b"
    using Replace_first_at_bracket [of a "''Asia/Shanghai]''" b "[]"] by simp
next
  assume "\<not> sublist ''[Asia/Shanghai]'' other"
  then show "Replace_first other ''[Asia/Shanghai]'' [] = other"
    by (rule Replace_first_absent)
qed

lemma paris_body_has_no_shanghai: "\<not> sublist ''[Asia/Shanghai]'' paris_body"
  by code_simp

lemma shanghai_body_split:
  "shanghai_body =
     ''<cas:authenticationDate>2024-05-01T10:15:30+08:00'' @ ''[Asia/Shanghai]'' @
     ''</cas:authenticationDate>''"
  by (simp add: shanghai_body_def)

theorem validateTicketCas3_strips_literal_witness:
  "validateTicketCas3 example_externals (example_validator 200 shanghai_body) example_service ''ST-123'' =
     strict_parser (Replace_first shanghai_body ''[Asia/Shanghai]'' []) \<and>
   Replace_first shanghai_body ''[Asia/Shanghai]'' [] =
     ''<cas:authenticationDate>2024-05-01T10:15:30+08:00</cas:authenticationDate>'' \<and>
   Replace_first paris_body ''[Asia/Shanghai]'' [] = paris_body"
proof -
  have p: "ext_ParseServiceResponse example_externals = strict_parser"
    by (simp add: example_externals_def)
  have n: "shanghai_body \<noteq> ''no\<newline>\<newline>''"
    by (simp add: shanghai_body_def)
  have h: "ValidateUrl3 example_externals (example_validator 200 shanghai_body) example_service ''ST-123'' = Inr url3 \<and>
      ext_NewRequest example_externals ''GET'' url3 = Inr (plain_request ''GET'' url3) \<and>
      client (example_validator 200 shanghai_body) (sent (plain_request ''GET'' url3)) =
        Inr (answer 200 shanghai_body) \<and>
      Response_Body (answer 200 shanghai_body) = Inr shanghai_body \<and>
      StatusCode (answer 200 shanghai_body) = 200 \<and> shanghai_body \<noteq> ''no\<newline>\<newline>''"
    using example_ValidateUrl3 example_NewRequest example_server_answers answer_simps n by blast
  have a: "CHR ''['' \<notin> set ''<cas:authenticationDate>2024-05-01T10:15:30+08:00''"
    by simp
  note w = validateTicketCas3_strips_literal
    [where x = example_externals and v = "example_validator 200 shanghai_body"
       and s = example_service and t = "''ST-123''" and u = url3
       and r = "plain_request ''GET'' url3"
       and resp = "answer 200 shanghai_body"
       and body = shanghai_body
       and a = "''<cas:authenticationDate>2024-05-01T10:15:30+08:00''"
       and b = "''</cas:authenticationDate>''" and other = paris_body]
  have 1: "validateTicketCas3 example_externals (example_validator 200 shanghai_body) example_service ''ST-123'' =
     strict_parser (Replace_first shanghai_body ''[Asia/Shanghai]'' [])"
    using w [THEN conjunct1, THEN mp, OF h] p by simp
  have 2: "Replace_first shanghai_body ''[Asia/Shanghai]'' [] =
     ''<cas:authenticationDate>2024-05-01T10:15:30+08:00</cas:authenticationDate>''"
    unfolding shanghai_body_split
    using w [THEN conjunct2, THEN conjunct1, THEN mp, OF a] by simp
  have 3: "Replace_first paris_body ''[Asia/Shanghai]'' [] = paris_body"
    by (rule w [THEN conjunct2, THEN conjunct2, THEN mp, OF paris_body_has_no_shanghai])
  show ?thesis
    using 1 2 3 by (intro conjI)
qed

text \<open>
  The claim as the specification words it fails for every other zone name: a date with
  the suffix "[Europe/Paris]" reaches the parser as it came, and with a parser that cannot
  read the suffix the whole validation fails.
\<close>

theorem validateTicketCas3_other_zone_counterexample:
  "Replace_first paris_body ''[Asia/Shanghai]'' [] = paris_body \<and>
   validateTicketCas3 example_externals (example_validator 200 paris_body) example_service ''ST-123'' =
     Inl (Error ''parsing time: extra text'')"
proof -
  have 1: "Replace_first paris_body ''[Asia/Shanghai]'' [] = paris_body"
    using paris_body_has_no_shanghai by (rule Replace_first_absent)
  have 2: "paris_body \<noteq> ''no\<newline>\<newline>''"
    by (simp add: paris_body_def)
  have 3: "strict_parser paris_body = Inl (Error ''parsing time: extra text'')"
    by (simp add: strict_parser_def paris_body_def)
  show ?thesis
    using example_validateTicketCas3 [of 200 paris_body] 1 2 3 by simp
qed

section \<open>Properties of the validation URLs\<close>

subsection \<open>Joining and cleaning plain paths\<close>

lemma rooted_path_simps [simp]:
  "rooted_path [] = []"
  "rooted_path (e # es) = CHR ''/'' # e @ rooted_path es"
  by (simp_all add: rooted_path_def)

lemma rooted_path_append: "rooted_path (xs @ ys) = rooted_path xs @ rooted_path ys"
  by (simp add: rooted_path_def)

lemma Split_no_sep: "sep \<notin> set e \<Longrightarrow> Split e sep = [e]"
  by (induction e) auto

lemma Split_first: "sep \<notin> set e \<Longrightarrow> Split (e @ sep # r) sep = e # Split r sep"
  by (induction e) auto

lemma plain_segment_no_slash: "plain_segment e \<Longrightarrow> CHR ''/'' \<notin> set e"
  by (auto simp: plain_segment_def list_all_iff)

lemma Split_segment_rooted:
  "CHR ''/'' \<notin> set e \<Longrightarrow> list_all plain_segment segs \<Longrightarrow>
     Split (e @ rooted_path segs) (CHR ''/'') = e # segs"
proof (induction segs arbitrary: e)
  case Nil
  then show ?case by (simp add: Split_no_sep)
next
  case (Cons s segs)
  have "Split (s @ rooted_path segs) (CHR ''/'') = s # segs"
    using Cons by (simp add: plain_segment_no_slash)
  then show ?case
    using Cons.prems(1) by (simp add: Split_first)
qed

lemma Split_rooted:
  "list_all plain_segment segs \<Longrightarrow> segs \<noteq> [] \<Longrightarrow> Split (rooted_path segs) (CHR ''/'') = [] # segs"
  using Split_segment_rooted [of "[]" segs] by simp

lemma Clean_elems_plain:
  "list_all plain_segment segs \<Longrightarrow> Clean_elems rooted segs out = out @ segs"
  by (induction segs arbitrary: out) (auto simp: plain_segment_def)

lemma Join_sep_rooted: "segs \<noteq> [] \<Longrightarrow> CHR ''/'' # Join_sep segs ''/'' = rooted_path segs"
  by (induction segs "''/''" rule: Join_sep.induct) auto

lemma rooted_path_nonempty: "segs \<noteq> [] \<Longrightarrow> rooted_path segs \<noteq> [] \<and> hd (rooted_path segs) = CHR ''/''"
  by (cases segs) auto

lemma path_Clean_rooted:
  assumes "list_all plain_segment segs" and "segs \<noteq> []"
  shows "path_Clean (rooted_path segs) = rooted_path segs"
  using assms rooted_path_nonempty [of segs]
  by (simp add: path_Clean_def Split_rooted Clean_elems_plain Join_sep_rooted)

lemma path_Join_rooted:
  assumes "list_all plain_segment segs" and "segs \<noteq> []"
    and "list_all plain_segment names" and "names \<noteq> []"
  shows "path_Join [rooted_path segs, Join_sep names ''/''] = rooted_path (segs @ names)"
proof -
  have 1: "Join_buf [] [rooted_path segs, Join_sep names ''/''] =
      rooted_path segs @ CHR ''/'' # Join_sep names ''/''"
    using rooted_path_nonempty [OF assms(2)] by simp
  have 2: "rooted_path segs @ CHR ''/'' # Join_sep names ''/'' = rooted_path (segs @ names)"
    using Join_sep_rooted [OF assms(4)] by (simp add: rooted_path_append)
  have 3: "path_Clean (rooted_path (segs @ names)) = rooted_path (segs @ names)"
    using assms by (intro path_Clean_rooted) auto
  show ?thesis
    using 1 2 3 rooted_path_nonempty [OF assms(2)] by (simp add: path_Join_def)
qed

subsection \<open>Parsing a plain path\<close>

lemma shouldEscape_slash: "\<not> shouldEscape (CHR ''/'') encodePath"
  by (simp add: shouldEscape_def isAlnum_def byte_def)

lemma shouldEscape_path_special:
  "shouldEscape (CHR ''%'') encodePath" "shouldEscape (CHR ''#'') encodePath"
  "shouldEscape (CHR ''?'') encodePath" "shouldEscape (CHR ''*'') encodePath"
  by (simp_all add: shouldEscape_def isAlnum_def byte_def)

lemma shouldEscape_space: "shouldEscape (CHR '' '') mode"
  by (cases mode) (simp_all add: shouldEscape_def isAlnum_def byte_def)

lemma plain_segment_chars: "plain_segment e \<Longrightarrow> \<forall>c\<in>set e. \<not> shouldEscape c encodePath"
  unfolding plain_segment_def list_all_iff by blast

lemma plain_path_chars:
  assumes "list_all plain_segment segs"
  shows "list_all (\<lambda>c. \<not> shouldEscape c encodePath) (rooted_path segs)"
  using assms
proof (induction segs)
  case Nil
  show ?case by simp
next
  case (Cons e es)
  then have "plain_segment e" and "list_all (\<lambda>c. \<not> shouldEscape c encodePath) (rooted_path es)"
    by simp_all
  then show ?case
    using shouldEscape_slash plain_segment_chars [of e] by (auto simp: list_all_iff)
qed

lemma escape_plain:
  "list_all (\<lambda>c. \<not> shouldEscape c mode) s \<Longrightarrow> escape s mode = s"
  by (induction s) (auto simp: shouldEscape_space)

lemma unescape_no_percent:
  "CHR ''%'' \<notin> set s \<Longrightarrow> unescape s encodePath = Inr s"
proof (induction s)
  case Nil
  show ?case by simp
next
  case (Cons c cs)
  then have "c \<noteq> CHR ''%''" and "unescape cs encodePath = Inr cs"
    by auto
  then show ?case
    by simp
qed

lemma Cut_absent: "sep \<notin> set s \<Longrightarrow> Cut s sep = (s, [], False)"
proof -
  assume "sep \<notin> set s"
  then have "dropWhile (\<lambda>c. c \<noteq> sep) s = []"
    by (induction s) auto
  then show ?thesis
    unfolding Cut_def by (simp only: list.case)
qed

lemma getScheme_slash: "getScheme (CHR ''/'' # r) = Inr ([], CHR ''/'' # r)"
  by (simp add: getScheme_def isLetter_def byte_def)

lemma setPath_plain:
  assumes "list_all (\<lambda>c. \<not> shouldEscape c encodePath) p"
  shows "setPath u p = Inr (u\<lparr>Path := p, RawPath := []\<rparr>)"
proof -
  have "CHR ''%'' \<notin> set p"
    using assms shouldEscape_path_special(1) by (auto simp: list_all_iff)
  then have "unescape p encodePath = Inr p"
    by (rule unescape_no_percent)
  moreover have "escape p encodePath = p"
    using assms by (rule escape_plain)
  ultimately show ?thesis
    by (simp add: setPath_def)
qed

lemma ctl_chars_escaped:
  "\<forall>c. (byte c < 0x20 \<or> byte c = 0x7F) \<longrightarrow> shouldEscape c encodePath"
  by code_simp

lemma no_ctl_in_plain:
  assumes "list_all (\<lambda>c. \<not> shouldEscape c encodePath) p"
  shows "\<not> stringContainsCTLByte p"
  using assms ctl_chars_escaped
  unfolding stringContainsCTLByte_def list_all_iff list_ex_iff by blast

lemma parse_plain:
  assumes "list_all plain_segment segs" and "segs \<noteq> []"
  shows "parse pa (rooted_path segs) = Inr (new_URL\<lparr>Path := rooted_path segs\<rparr>)"
proof -
  let ?P = "rooted_path segs"
  have chars: "list_all (\<lambda>c. \<not> shouldEscape c encodePath) ?P"
    using assms(1) by (rule plain_path_chars)
  obtain s rest where segs: "segs = s # rest"
    using assms(2) by (cases segs) auto
  have "plain_segment s"
    using assms(1) segs by simp
  then have s: "s \<noteq> []" "CHR ''/'' \<notin> set s"
    unfolding plain_segment_def list_all_iff by blast+
  obtain c s' where sc: "s = c # s'" "c \<noteq> CHR ''/''"
    using s by (cases s) auto
  have P: "?P = CHR ''/'' # c # s' @ rooted_path rest"
    using segs sc by simp
  have ctl: "\<not> stringContainsCTLByte ?P"
    using chars by (rule no_ctl_in_plain)
  have star: "?P \<noteq> ''*''"
    using P by simp
  have q: "CHR ''?'' \<notin> set ?P"
    using chars shouldEscape_path_special(3) unfolding list_all_iff by blast
  have ne: "?P \<noteq> []"
    using P by simp
  have lastq: "last ?P \<noteq> CHR ''?''"
    using q last_in_set [OF ne] by metis
  have pre1: "prefix ''/'' ?P" and pre2: "\<not> prefix ''//'' ?P"
    using P sc by simp_all
  have sp: "setPath new_URL ?P = Inr (new_URL\<lparr>Path := ?P, RawPath := []\<rparr>)"
    using chars by (rule setPath_plain)
  have gs: "getScheme ?P = Inr ([], ?P)"
    using P getScheme_slash by simp
  have n: "new_URL\<lparr>Scheme := ToLower [], RawQuery := []\<rparr> = new_URL"
      "new_URL\<lparr>Path := ?P, RawPath := []\<rparr> = new_URL\<lparr>Path := ?P\<rparr>"
    by (simp_all add: new_URL_def ToLower_def)
  have sch: "Scheme new_URL = []"
    by (simp add: new_URL_def)
  have cut: "Cut ?P (CHR ''?'') = (?P, [], False)"
    using q by (rule Cut_absent)
  show ?thesis
    unfolding parse_def Let_def
    by (simp only: ctl star gs lastq pre1 pre2 sp n sch cut if_False if_True sum.case prod.case
        fst_conv snd_conv simp_thms)
qed

lemma url_Parse_plain:
  assumes "list_all plain_segment segs" and "segs \<noteq> []"
  shows "url_Parse pa (rooted_path segs) = Inr (new_URL\<lparr>Path := rooted_path segs\<rparr>)"
proof -
  have "CHR ''#'' \<notin> set (rooted_path segs)"
    using plain_path_chars [OF assms(1)] shouldEscape_path_special(2) unfolding list_all_iff by blast
  then have "Cut (rooted_path segs) (CHR ''#'') = (rooted_path segs, [], False)"
    by (rule Cut_absent)
  then show ?thesis
    using parse_plain [OF assms, of pa] by (simp add: url_Parse_def)
qed

subsection \<open>Resolving against the server URL and printing\<close>

lemma plain_segment_not_dot: "plain_segment e \<Longrightarrow> e \<noteq> ''.'' \<and> e \<noteq> ''..'' \<and> e \<noteq> []"
  unfolding plain_segment_def by blast

lemma resolvePath_loop_plain:
  "list_all plain_segment segs \<Longrightarrow> resolvePath_loop segs dst False = dst @ rooted_path segs"
proof (induction segs arbitrary: dst)
  case Nil
  show ?case by simp
next
  case (Cons e es)
  then have e: "e \<noteq> ''.''" "e \<noteq> ''..''" and es: "list_all plain_segment es"
    using plain_segment_not_dot [of e] by simp_all
  have "resolvePath_loop (e # es) dst False = resolvePath_loop es (dst @ ''/'' @ e) False"
    using e by simp
  also have "\<dots> = (dst @ ''/'' @ e) @ rooted_path es"
    using es by (rule Cons.IH)
  finally show ?case
    by simp
qed

lemma resolvePath_plain:
  assumes "list_all plain_segment segs" and "segs \<noteq> []"
  shows "resolvePath base (rooted_path segs) = rooted_path segs"
proof -
  let ?P = "rooted_path segs"
  have ne: "?P \<noteq> []" and hd: "hd ?P = CHR ''/''"
    using rooted_path_nonempty [OF assms(2)] by simp_all
  have sp: "Split ?P (CHR ''/'') = [] # segs"
    using assms by (rule Split_rooted)
  have loop: "resolvePath_loop ([] # segs) ''/'' True = ''/'' @ ?P"
    using resolvePath_loop_plain [OF assms(1), of "''/''"] by simp
  have "plain_segment (last segs)"
    using assms by (simp add: list_all_iff)
  then have last: "last ([] # segs) \<noteq> ''.''" "last ([] # segs) \<noteq> ''..''"
    using assms(2) plain_segment_not_dot [of "last segs"] by simp_all
  obtain r where P: "?P = CHR ''/'' # r"
    using ne hd by (cases ?P) auto
  have fin: "length (''/'' @ ?P) > 1 \<and> (''/'' @ ?P) ! 1 = CHR ''/''" "drop 1 (''/'' @ ?P) = ?P"
    using P by simp_all
  show ?thesis
    unfolding resolvePath_def Let_def
    using ne hd sp loop last fin by (simp only: if_False if_True simp_thms)
qed

lemma EscapedPath_plain:
  assumes "list_all (\<lambda>c. \<not> shouldEscape c encodePath) (Path u)" and "RawPath u = []"
  shows "EscapedPath u = Path u"
proof -
  have "Path u \<noteq> ''*''"
    using assms(1) shouldEscape_path_special(4) by (auto simp: list_all_iff)
  then show ?thesis
    using assms escape_plain [OF assms(1)] by (simp add: EscapedPath_def)
qed

lemma ResolveReference_plain:
  assumes "list_all plain_segment segs" and "segs \<noteq> []"
  shows "ResolveReference c (new_URL\<lparr>Path := rooted_path segs\<rparr>) = resolved c (rooted_path segs)"
proof -
  let ?P = "rooted_path segs"
  let ?ref = "new_URL\<lparr>Path := ?P\<rparr>"
  have chars: "list_all (\<lambda>c. \<not> shouldEscape c encodePath) ?P"
    using assms(1) by (rule plain_path_chars)
  have ne: "?P \<noteq> []"
    using rooted_path_nonempty [OF assms(2)] by simp
  have ref: "Scheme ?ref = []" "Host ?ref = []" "URL_User ?ref = None" "Opaque ?ref = []"
      "Path ?ref = ?P" "RawPath ?ref = []"
    by (simp_all add: new_URL_def)
  have ep: "EscapedPath ?ref = ?P"
    using EscapedPath_plain [of ?ref] chars ref by simp
  have rp: "resolvePath (EscapedPath c) ?P = ?P"
    using assms by (rule resolvePath_plain)
  have sp: "\<And>u. setPath_dropping_error u ?P = u\<lparr>Path := ?P, RawPath := []\<rparr>"
    using setPath_plain [OF chars] by (simp add: setPath_dropping_error_def)
  have fin: "?ref\<lparr>Scheme := Scheme c, Host := Host c, URL_User := URL_User c, Path := ?P, RawPath := []\<rparr> =
      resolved c ?P"
    by (simp add: new_URL_def resolved_def)
  show ?thesis
    unfolding ResolveReference_def Let_def
    using ref ep rp sp ne fin by simp
qed

lemma URL_Parse_plain:
  assumes "list_all plain_segment segs" and "segs \<noteq> []"
  shows "URL_Parse pa c (rooted_path segs) = Inr (resolved c (rooted_path segs))"
  using url_Parse_plain [OF assms, of pa] ResolveReference_plain [OF assms, of c]
  by (simp add: URL_Parse_def)

lemma URL_Query_resolved: "URL_Query (resolved c p) = []"
  by (simp add: URL_Query_def resolved_def parseQuery_step_def)

lemma QueryEscape_keys: "QueryEscape ''service'' = ''service''" "QueryEscape ''ticket'' = ''ticket''"
  by code_simp+

lemma sort_service_ticket: "sort_Strings [''service'', ''ticket''] = [''service'', ''ticket'']"
  by code_simp

lemma Values_Encode_service_ticket:
  "Values_Encode (Values_Add (Values_Add [] ''service'' a) ''ticket'' b) =
     ''service='' @ QueryEscape a @ ''&ticket='' @ QueryEscape b"
  by (simp add: Values_Encode_def sort_service_ticket QueryEscape_keys)

lemma URL_String_resolved:
  assumes "Scheme c \<noteq> []" and "plain_host (Host c)" and "URL_User c = None"
    and "list_all plain_segment segs" and "segs \<noteq> []" and "q \<noteq> []"
  shows "URL_String ((resolved c (rooted_path segs))\<lparr>RawQuery := q\<rparr>) =
           Scheme c @ ''://'' @ Host c @ rooted_path segs @ ''?'' @ q"
proof -
  let ?P = "rooted_path segs"
  let ?u = "(resolved c ?P)\<lparr>RawQuery := q\<rparr>"
  have chars: "list_all (\<lambda>c. \<not> shouldEscape c encodePath) ?P"
    using assms(4) by (rule plain_path_chars)
  have f: "Scheme ?u = Scheme c" "Opaque ?u = []" "URL_User ?u = None" "Host ?u = Host c"
      "Path ?u = ?P" "RawPath ?u = []" "OmitHost ?u = False" "ForceQuery ?u = False"
      "RawQuery ?u = q" "Fragment ?u = []"
    using assms(3) by (simp_all add: resolved_def)
  have ep: "EscapedPath ?u = ?P"
    using EscapedPath_plain [of ?u] chars f by simp
  have h: "Host c \<noteq> []" "escape (Host c) encodeHost = Host c"
    using assms(2) escape_plain [of encodeHost "Host c"] by (simp_all add: plain_host_def)
  have hd: "?P \<noteq> []" "hd ?P = CHR ''/''"
    using rooted_path_nonempty [OF assms(5)] by simp_all
  show ?thesis
    unfolding URL_String_def Let_def
    using f ep h hd assms(1) assms(6) by simp
qed

lemma builder_core:
  assumes "Scheme c \<noteq> []" and "plain_host (Host c)" and "URL_User c = None"
    and "Path c = rooted_path segs" and "list_all plain_segment segs" and "segs \<noteq> []"
    and "list_all plain_segment names" and "names \<noteq> []"
  shows "(case URL_Parse pa c (path_Join [Path c, Join_sep names ''/'']) of
            Inl err \<Rightarrow> Inl err
          | Inr u \<Rightarrow>
              (let q = URL_Query u;
                   q = Values_Add q ''service'' sv;
                   q = Values_Add q ''ticket'' t;
                   u = u\<lparr>RawQuery := Values_Encode q\<rparr>
               in Inr (URL_String u))) =
         Inr (Scheme c @ ''://'' @ Host c @ Path c @ rooted_path names @
              ''?service='' @ QueryEscape sv @ ''&ticket='' @ QueryEscape t)"
proof -
  have all: "list_all plain_segment (segs @ names)" and ne: "segs @ names \<noteq> []"
    using assms by simp_all
  have j: "path_Join [Path c, Join_sep names ''/''] = rooted_path (segs @ names)"
    using path_Join_rooted [OF assms(5,6,7,8)] assms(4) by simp
  have p: "URL_Parse pa c (rooted_path (segs @ names)) = Inr (resolved c (rooted_path (segs @ names)))"
    using all ne by (rule URL_Parse_plain)
  have q: "Values_Encode (Values_Add (Values_Add [] ''service'' sv) ''ticket'' t) \<noteq> []"
    unfolding Values_Encode_service_ticket by simp
  have s: "URL_String ((resolved c (rooted_path (segs @ names)))
              \<lparr>RawQuery := Values_Encode (Values_Add (Values_Add [] ''service'' sv) ''ticket'' t)\<rparr>) =
      Scheme c @ ''://'' @ Host c @ rooted_path (segs @ names) @ ''?'' @
        Values_Encode (Values_Add (Values_Add [] ''service'' sv) ''ticket'' t)"
    using assms(1,2,3) all ne q by (rule URL_String_resolved)
  show ?thesis
    unfolding j p
    using s assms(4)
    by (simp add: URL_Query_resolved Values_Encode_service_ticket rooted_path_append
        del: Values_Add.simps)
qed

subsection \<open>A server URL without a path\<close>

lemma Join_sep_segments:
  "Join_sep (e # es) ''/'' = e @ rooted_path es"
  by (induction es arbitrary: e) auto

lemma Split_joined:
  assumes "list_all plain_segment names" and "names \<noteq> []"
  shows "Split (Join_sep names ''/'') (CHR ''/'') = names"
proof -
  obtain e es where n: "names = e # es"
    using assms(2) by (cases names) auto
  then have "CHR ''/'' \<notin> set e" and "list_all plain_segment es"
    using assms(1) plain_segment_no_slash [of e] by simp_all
  then show ?thesis
    using n Split_segment_rooted [of e es] by (simp add: Join_sep_segments)
qed

lemma joined_first_char:
  assumes "list_all plain_segment names" and "names \<noteq> []"
  shows "Join_sep names ''/'' \<noteq> [] \<and> hd (Join_sep names ''/'') \<noteq> CHR ''/''"
proof -
  obtain e es where n: "names = e # es"
    using assms(2) by (cases names) auto
  then have "plain_segment e"
    using assms(1) by simp
  then have "e \<noteq> []" and "CHR ''/'' \<notin> set e"
    using plain_segment_not_dot [of e] plain_segment_no_slash [of e] by simp_all
  then obtain c e' where "e = c # e'" and "c \<noteq> CHR ''/''"
    by (cases e) auto
  then show ?thesis
    using n by (simp add: Join_sep_segments)
qed

lemma path_Join_empty_base:
  assumes "list_all plain_segment names" and "names \<noteq> []"
  shows "path_Join [[], Join_sep names ''/''] = Join_sep names ''/''"
proof -
  let ?n = "Join_sep names ''/''"
  have ne: "?n \<noteq> []" and hd: "hd ?n \<noteq> CHR ''/''"
    using joined_first_char [OF assms] by simp_all
  have "path_Clean ?n = ?n"
    using ne hd assms(2) by (simp add: path_Clean_def Split_joined [OF assms] Clean_elems_plain [OF assms(1)])
  then show ?thesis
    using ne by (simp add: path_Join_def)
qed

lemma joined_chars:
  assumes "list_all plain_segment names" and "names \<noteq> []"
  shows "list_all (\<lambda>c. \<not> shouldEscape c encodePath) (Join_sep names ''/'')"
proof -
  obtain e es where n: "names = e # es"
    using assms(2) by (cases names) auto
  then have "plain_segment e" and "list_all plain_segment es"
    using assms(1) by simp_all
  then show ?thesis
    using n plain_segment_chars [of e] plain_path_chars [of es]
    by (auto simp: Join_sep_segments list_all_iff)
qed

lemma getScheme_from_no_colon:
  "CHR '':'' \<notin> set s \<Longrightarrow> getScheme_from raw seen s = Inr ([], raw)"
  by (induction s arbitrary: seen) auto

lemma Cut_fst_subset: "x \<in> set (fst (Cut s sep)) \<Longrightarrow> x \<in> set s"
  by (cases "dropWhile (\<lambda>c. c \<noteq> sep) s") (auto simp: Cut_def dest: set_takeWhileD)

lemma parse_relative:
  assumes "list_all plain_segment names" and "names \<noteq> []"
    and "CHR '':'' \<notin> set (Join_sep names ''/'')"
  shows "parse pa (Join_sep names ''/'') = Inr (new_URL\<lparr>Path := Join_sep names ''/''\<rparr>)"
proof -
  let ?P = "Join_sep names ''/''"
  have chars: "list_all (\<lambda>c. \<not> shouldEscape c encodePath) ?P"
    using assms(1,2) by (rule joined_chars)
  have ne: "?P \<noteq> []" and hd: "hd ?P \<noteq> CHR ''/''"
    using joined_first_char [OF assms(1,2)] by simp_all
  obtain c r where P: "?P = c # r" "c \<noteq> CHR ''/''"
    using ne hd by (cases ?P) auto
  have ctl: "\<not> stringContainsCTLByte ?P"
    using chars by (rule no_ctl_in_plain)
  have star: "?P \<noteq> ''*''"
    using chars shouldEscape_path_special(4) by (auto simp: list_all_iff)
  have q: "CHR ''?'' \<notin> set ?P"
    using chars shouldEscape_path_special(3) unfolding list_all_iff by blast
  have lastq: "last ?P \<noteq> CHR ''?''"
    using q last_in_set [OF ne] by metis
  have pre1: "\<not> prefix ''/'' ?P" and pre2: "\<not> prefix ''//'' ?P"
    using P by simp_all
  have sp: "setPath new_URL ?P = Inr (new_URL\<lparr>Path := ?P, RawPath := []\<rparr>)"
    using chars by (rule setPath_plain)
  have gs: "getScheme ?P = Inr ([], ?P)"
    using assms(3) by (simp add: getScheme_def getScheme_from_no_colon)
  have n: "new_URL\<lparr>Scheme := ToLower [], RawQuery := []\<rparr> = new_URL"
      "new_URL\<lparr>Path := ?P, RawPath := []\<rparr> = new_URL\<lparr>Path := ?P\<rparr>"
    by (simp_all add: new_URL_def ToLower_def)
  have sch: "Scheme new_URL = []"
    by (simp add: new_URL_def)
  have cut: "Cut ?P (CHR ''?'') = (?P, [], False)"
    using q by (rule Cut_absent)
  have colon: "CHR '':'' \<notin> set (fst (Cut ?P (CHR ''/'')))"
    using assms(3) Cut_fst_subset [of "CHR '':''" ?P "CHR ''/''"] by blast
  show ?thesis
    unfolding parse_def Let_def
    by (simp only: ctl star gs lastq pre1 pre2 sp n sch cut colon if_False if_True sum.case prod.case
        fst_conv snd_conv simp_thms)
qed

lemma url_Parse_relative:
  assumes "list_all plain_segment names" and "names \<noteq> []"
    and "CHR '':'' \<notin> set (Join_sep names ''/'')"
  shows "url_Parse pa (Join_sep names ''/'') = Inr (new_URL\<lparr>Path := Join_sep names ''/''\<rparr>)"
proof -
  have "CHR ''#'' \<notin> set (Join_sep names ''/'')"
    using joined_chars [OF assms(1,2)] shouldEscape_path_special(2) unfolding list_all_iff by blast
  then have "Cut (Join_sep names ''/'') (CHR ''#'') = (Join_sep names ''/'', [], False)"
    by (rule Cut_absent)
  then show ?thesis
    using parse_relative [OF assms, of pa] by (simp add: url_Parse_def)
qed

lemma unescape_Nil: "unescape s mode = Inr [] \<Longrightarrow> s = []"
  by (cases s) (simp_all split: if_splits sum.splits)

lemma EscapedPath_empty: "Path u = [] \<Longrightarrow> EscapedPath u = []"
  using unescape_Nil [of "RawPath u" encodePath] by (auto simp: EscapedPath_def)

lemma resolvePath_loop_first:
  assumes "list_all plain_segment names" and "names \<noteq> []"
  shows "resolvePath_loop names ''/'' True = rooted_path names"
proof -
  obtain e es where n: "names = e # es"
    using assms(2) by (cases names) auto
  then have e: "e \<noteq> ''.''" "e \<noteq> ''..''" and es: "list_all plain_segment es"
    using assms(1) plain_segment_not_dot [of e] by simp_all
  have "resolvePath_loop (e # es) ''/'' True = resolvePath_loop es (''/'' @ e) False"
    using e by simp
  then show ?thesis
    using n resolvePath_loop_plain [OF es, of "''/'' @ e"] by simp
qed

lemma resolvePath_relative:
  assumes "list_all plain_segment names" and "names \<noteq> []"
  shows "resolvePath [] (Join_sep names ''/'') = rooted_path names"
proof -
  let ?n = "Join_sep names ''/''"
  have ne: "?n \<noteq> []" and hd: "hd ?n \<noteq> CHR ''/''"
    using joined_first_char [OF assms] by simp_all
  have sp: "Split ?n (CHR ''/'') = names"
    using assms by (rule Split_joined)
  have loop: "resolvePath_loop names ''/'' True = rooted_path names"
    using assms by (rule resolvePath_loop_first)
  have "plain_segment (last names)"
    using assms by (simp add: list_all_iff)
  then have last: "last names \<noteq> ''.''" "last names \<noteq> ''..''"
    using plain_segment_not_dot [of "last names"] by simp_all
  obtain e es where n: "names = e # es"
    using assms(2) by (cases names) auto
  then have "plain_segment e"
    using assms(1) by simp
  then have "e \<noteq> []" and "CHR ''/'' \<notin> set e"
    using plain_segment_not_dot [of e] plain_segment_no_slash [of e] by simp_all
  then obtain c e' where ec: "e = c # e'" "c \<noteq> CHR ''/''"
    by (cases e) auto
  have fin: "\<not> (length (rooted_path names) > 1 \<and> rooted_path names ! 1 = CHR ''/'')"
    using n ec by simp
  have li: "LastIndexByte [] (CHR ''/'') = None"
    by (simp add: LastIndexByte_def)
  show ?thesis
    unfolding resolvePath_def Let_def
    using ne hd sp loop last fin li by (simp only: if_False if_True simp_thms option.case append_Nil)
qed

lemma ResolveReference_relative:
  assumes "list_all plain_segment names" and "names \<noteq> []" and "Path c = []"
  shows "ResolveReference c (new_URL\<lparr>Path := Join_sep names ''/''\<rparr>) = resolved c (rooted_path names)"
proof -
  let ?n = "Join_sep names ''/''"
  let ?P = "rooted_path names"
  let ?ref = "new_URL\<lparr>Path := ?n\<rparr>"
  have chars: "list_all (\<lambda>c. \<not> shouldEscape c encodePath) ?P"
    using assms(1) by (rule plain_path_chars)
  have nchars: "list_all (\<lambda>c. \<not> shouldEscape c encodePath) ?n"
    using assms(1,2) by (rule joined_chars)
  have ne: "?n \<noteq> []"
    using joined_first_char [OF assms(1,2)] by simp
  have ref: "Scheme ?ref = []" "Host ?ref = []" "URL_User ?ref = None" "Opaque ?ref = []"
      "Path ?ref = ?n" "RawPath ?ref = []"
    by (simp_all add: new_URL_def)
  have ep: "EscapedPath ?ref = ?n"
    using EscapedPath_plain [of ?ref] nchars ref by simp
  have epc: "EscapedPath c = []"
    using assms(3) by (rule EscapedPath_empty)
  have rp: "resolvePath (EscapedPath c) ?n = ?P"
    using resolvePath_relative [OF assms(1,2)] epc by simp
  have sp: "\<And>u. setPath_dropping_error u ?P = u\<lparr>Path := ?P, RawPath := []\<rparr>"
    using setPath_plain [OF chars] by (simp add: setPath_dropping_error_def)
  have fin: "?ref\<lparr>Scheme := Scheme c, Host := Host c, URL_User := URL_User c, Path := ?P, RawPath := []\<rparr> =
      resolved c ?P"
    by (simp add: new_URL_def resolved_def)
  show ?thesis
    unfolding ResolveReference_def Let_def
    using ref ep rp sp ne fin by simp
qed

lemma builder_core_any:
  assumes "Scheme c \<noteq> []" and "plain_host (Host c)" and "URL_User c = None"
    and "Path c = rooted_path segs" and "list_all plain_segment segs"
    and "list_all plain_segment names" and "names \<noteq> []"
    and "CHR '':'' \<notin> set (Join_sep names ''/'')"
  shows "(case URL_Parse pa c (path_Join [Path c, Join_sep names ''/'']) of
            Inl err \<Rightarrow> Inl err
          | Inr u \<Rightarrow>
              (let q = URL_Query u;
                   q = Values_Add q ''service'' sv;
                   q = Values_Add q ''ticket'' t;
                   u = u\<lparr>RawQuery := Values_Encode q\<rparr>
               in Inr (URL_String u))) =
         Inr (Scheme c @ ''://'' @ Host c @ Path c @ rooted_path names @
              ''?service='' @ QueryEscape sv @ ''&ticket='' @ QueryEscape t)"
proof (cases "segs = []")
  case False
  then show ?thesis
    using assms by (intro builder_core) auto
next
  case True
  then have pc: "Path c = []"
    using assms(4) by simp
  have j: "path_Join [Path c, Join_sep names ''/''] = Join_sep names ''/''"
    using path_Join_empty_base [OF assms(6,7)] pc by simp
  have p: "URL_Parse pa c (Join_sep names ''/'') = Inr (resolved c (rooted_path names))"
    using url_Parse_relative [OF assms(6,7,8), of pa] ResolveReference_relative [OF assms(6,7) pc]
    by (simp add: URL_Parse_def)
  have q: "Values_Encode (Values_Add (Values_Add [] ''service'' sv) ''ticket'' t) \<noteq> []"
    unfolding Values_Encode_service_ticket by simp
  have s: "URL_String ((resolved c (rooted_path names))
              \<lparr>RawQuery := Values_Encode (Values_Add (Values_Add [] ''service'' sv) ''ticket'' t)\<rparr>) =
      Scheme c @ ''://'' @ Host c @ rooted_path names @ ''?'' @
        Values_Encode (Values_Add (Values_Add [] ''service'' sv) ''ticket'' t)"
    using assms(1,2,3,6,7) q by (rule URL_String_resolved)
  show ?thesis
    unfolding j p
    using s pc
    by (simp add: URL_Query_resolved Values_Encode_service_ticket del: Values_Add.simps)
qed

subsection \<open>Escaping and reading back a query\<close>

lemma nibbles: "list_all (\<lambda>n. ishex (upperhex n) \<and> unhex (upperhex n) = n \<and> upperhex n \<notin> set ''&=;'') [0..<16]"
  by code_simp

lemma nibble:
  assumes "n < 16"
  shows "ishex (upperhex n)" "unhex (upperhex n) = n" "upperhex n \<notin> set ''&=;''"
proof -
  have "n \<in> set [0..<16]"
    using assms by simp
  then have "ishex (upperhex n) \<and> unhex (upperhex n) = n \<and> upperhex n \<notin> set ''&=;''"
    using nibbles unfolding list_all_iff by blast
  then show "ishex (upperhex n)" "unhex (upperhex n) = n" "upperhex n \<notin> set ''&=;''"
    by blast+
qed

lemma byte_less_256: "byte c < 256"
proof -
  have "of_char (char_of (of_char c :: nat)) = (of_char c :: nat) mod 256"
    by (rule of_char_of)
  then have "(of_char c :: nat) = of_char c mod 256"
    by simp
  then show ?thesis
    unfolding byte_def by (metis mod_less_divisor zero_less_numeral)
qed

lemma hex_digits_roundtrip:
  "ishex (upperhex (byte c div 16))" "ishex (upperhex (byte c mod 16))"
  "char_of (unhex (upperhex (byte c div 16)) * 16 + unhex (upperhex (byte c mod 16))) = c"
proof -
  have d: "byte c div 16 < 16" and m: "byte c mod 16 < 16"
    using byte_less_256 [of c] by simp_all
  show "ishex (upperhex (byte c div 16))" "ishex (upperhex (byte c mod 16))"
    using d m nibble(1) by blast+
  have "unhex (upperhex (byte c div 16)) * 16 + unhex (upperhex (byte c mod 16)) = byte c"
    using nibble(2) [OF d] nibble(2) [OF m] by simp
  then show "char_of (unhex (upperhex (byte c div 16)) * 16 + unhex (upperhex (byte c mod 16))) = c"
    by (simp add: byte_def)
qed

lemma hex_digits_not_separator:
  "upperhex (byte c div 16) \<notin> set ''&=;''" "upperhex (byte c mod 16) \<notin> set ''&=;''"
proof -
  have d: "byte c div 16 < 16" and m: "byte c mod 16 < 16"
    using byte_less_256 [of c] by simp_all
  show "upperhex (byte c div 16) \<notin> set ''&=;''" "upperhex (byte c mod 16) \<notin> set ''&=;''"
    using d m nibble(3) by blast+
qed

lemma query_unescaped_chars:
  "\<forall>c. \<not> shouldEscape c encodeQueryComponent \<longrightarrow> c \<notin> set ''%+&=;''"
  by code_simp

lemma unescape_percent:
  assumes "ishex h1" and "ishex h2" and "mode \<noteq> encodeHost"
  shows "unescape (CHR ''%'' # h1 # h2 # r) mode =
           (case unescape r mode of
              Inl err \<Rightarrow> Inl err
            | Inr t \<Rightarrow> Inr (char_of (unhex h1 * 16 + unhex h2) # t))"
proof -
  have "length (h1 # h2 # r) \<ge> 2" "(h1 # h2 # r) ! 0 = h1" "(h1 # h2 # r) ! 1 = h2"
      "drop 2 (h1 # h2 # r) = r"
    by simp_all
  then show ?thesis
    using assms by (simp only: unescape.simps if_True if_False simp_thms not_less [symmetric] not_le)
qed

lemma unescape_escape_query:
  "unescape (escape s encodeQueryComponent) encodeQueryComponent = Inr s"
proof (induction s)
  case Nil
  show ?case by simp
next
  case (Cons c cs)
  show ?case
  proof (cases "c = CHR '' ''")
    case True
    then show ?thesis
      using Cons by simp
  next
    case False
    show ?thesis
    proof (cases "shouldEscape c encodeQueryComponent")
      case True
      have e: "escape (c # cs) encodeQueryComponent =
          CHR ''%'' # upperhex (byte c div 16) # upperhex (byte c mod 16) # escape cs encodeQueryComponent"
        using True False by simp
      have "unescape (CHR ''%'' # upperhex (byte c div 16) # upperhex (byte c mod 16) #
              escape cs encodeQueryComponent) encodeQueryComponent = Inr (c # cs)"
        using unescape_percent [OF hex_digits_roundtrip(1,2), of encodeQueryComponent c c
            "escape cs encodeQueryComponent"]
          hex_digits_roundtrip(3) [of c] Cons
        by simp
      then show ?thesis
        unfolding e .
    next
      case no: False
      then have "c \<noteq> CHR ''%''" and "c \<noteq> CHR ''+''"
        using query_unescaped_chars by auto
      then show ?thesis
        using Cons no False by simp
    qed
  qed
qed

lemma QueryUnescape_QueryEscape: "QueryUnescape (QueryEscape s) = Inr s"
  by (simp add: QueryUnescape_def QueryEscape_def unescape_escape_query)

lemma escape_query_no_separator:
  "x \<in> set (escape s encodeQueryComponent) \<Longrightarrow> x \<notin> set ''&=;''"
proof (induction s)
  case Nil
  then show ?case by simp
next
  case (Cons c cs)
  show ?case
  proof (cases "c = CHR '' ''")
    case True
    then show ?thesis
      using Cons by auto
  next
    case False
    show ?thesis
    proof (cases "shouldEscape c encodeQueryComponent")
      case True
      then have "x = CHR ''%'' \<or> x = upperhex (byte c div 16) \<or> x = upperhex (byte c mod 16) \<or>
          x \<in> set (escape cs encodeQueryComponent)"
        using Cons.prems False by simp
      then show ?thesis
        using Cons.IH hex_digits_not_separator [of c] by auto
    next
      case no: False
      then have "x = c \<or> x \<in> set (escape cs encodeQueryComponent)"
        using Cons.prems False by simp
      then show ?thesis
        using Cons.IH no query_unescaped_chars by auto
    qed
  qed
qed

lemma QueryEscape_no_separator:
  "CHR ''&'' \<notin> set (QueryEscape s)" "CHR ''='' \<notin> set (QueryEscape s)" "CHR '';'' \<notin> set (QueryEscape s)"
  using escape_query_no_separator [of _ s] by (auto simp: QueryEscape_def)

lemma Cut_found: "sep \<notin> set a \<Longrightarrow> Cut (a @ sep # b) sep = (a, b, True)"
proof -
  assume a: "sep \<notin> set a"
  then have "dropWhile (\<lambda>c. c \<noteq> sep) (a @ sep # b) = sep # b"
    by (induction a) auto
  moreover have "takeWhile (\<lambda>c. c \<noteq> sep) (a @ sep # b) = a"
    using a by (induction a) auto
  ultimately show ?thesis
    unfolding Cut_def by (simp only: list.case)
qed

lemma parseQuery_step_encode_pair:
  "parseQuery_step m (encode_pair (k, x)) = Values_Add m k x"
proof -
  have 1: "CHR '';'' \<notin> set (encode_pair (k, x))"
    using QueryEscape_no_separator(3) by (simp add: encode_pair_def)
  have 2: "encode_pair (k, x) \<noteq> []"
    by (simp add: encode_pair_def)
  have 3: "Cut (encode_pair (k, x)) (CHR ''='') = (QueryEscape k, QueryEscape x, True)"
    using Cut_found [OF QueryEscape_no_separator(2), of k "QueryEscape x"]
    by (simp add: encode_pair_def)
  show ?thesis
    unfolding parseQuery_step_def
    using 1 2 3 by (simp add: QueryUnescape_QueryEscape)
qed

lemma encode_pair_no_amp: "CHR ''&'' \<notin> set (encode_pair kx)"
  using QueryEscape_no_separator(1) by (simp add: encode_pair_def)

lemma Split_Join_amp:
  "items \<noteq> [] \<Longrightarrow> \<forall>i\<in>set items. CHR ''&'' \<notin> set i \<Longrightarrow>
     Split (Join_sep items ''&'') (CHR ''&'') = items"
proof (induction items "''&''" rule: Join_sep.induct)
  case 1
  then show ?case by simp
next
  case (2 e)
  then show ?case by (simp add: Split_no_sep)
next
  case (3 e v va)
  then show ?case by (simp add: Split_first)
qed

lemma Values_Add_keys: "fst ` set (Values_Add m k x) = insert k (fst ` set m)"
  by (induction m k x rule: Values_Add.induct) auto

lemma foldl_add_keys:
  "fst ` set (foldl (\<lambda>m kx. Values_Add m (fst kx) (snd kx)) m ps) = fst ` set m \<union> fst ` set ps"
  by (induction ps arbitrary: m) (auto simp: Values_Add_keys)

lemma parse_encoded_pairs:
  "foldl parseQuery_step m (map encode_pair ps) =
     foldl (\<lambda>m kx. Values_Add m (fst kx) (snd kx)) m ps"
proof (induction ps arbitrary: m)
  case Nil
  show ?case by simp
next
  case (Cons p ps)
  obtain k x where p: "p = (k, x)"
    by (cases p)
  show ?case
    using Cons [of "Values_Add m k x"] p by (simp add: parseQuery_step_encode_pair)
qed

lemma Values_Encode_pairs: "Values_Encode v = Join_sep (map encode_pair (sorted_pairs v)) ''&''"
  by (simp add: Values_Encode_def sorted_pairs_def encode_pair_def map_concat comp_def)

lemma insert_key_set: "set (insert_key k ks) = insert k (set ks)"
  by (induction ks) auto

lemma sort_Strings_set: "set (sort_Strings ks) = set ks"
  by (induction ks) (auto simp: sort_Strings_def insert_key_set)

lemma sorted_pairs_keys: "fst ` set (sorted_pairs v) \<subseteq> fst ` set v"
  by (force simp: sorted_pairs_def sort_Strings_set)

lemma Query_of_Encode_keys:
  "fst ` set (foldl parseQuery_step [] (Split (Values_Encode v) (CHR ''&''))) \<subseteq> fst ` set v"
proof (cases "sorted_pairs v = []")
  case True
  then show ?thesis
    by (simp add: Values_Encode_pairs parseQuery_step_def)
next
  case False
  then have "Split (Values_Encode v) (CHR ''&'') = map encode_pair (sorted_pairs v)"
    using encode_pair_no_amp by (simp add: Values_Encode_pairs Split_Join_amp)
  then show ?thesis
    using sorted_pairs_keys [of v] by (simp add: parse_encoded_pairs foldl_add_keys)
qed

subsection \<open>The query of a printed URL\<close>

lemma escaped_char_absent:
  assumes "shouldEscape x mode" and "x \<notin> set ''%+0123456789ABCDEF''"
  shows "x \<notin> set (escape s mode)"
proof (induction s)
  case Nil
  show ?case by simp
next
  case (Cons c cs)
  have d: "byte c div 16 < 16" and m: "byte c mod 16 < 16"
    using byte_less_256 [of c] by simp_all
  have hex: "\<And>n. n < 16 \<Longrightarrow> upperhex n \<in> set ''0123456789ABCDEF''"
    unfolding upperhex_def by (rule nth_mem) simp
  have "x \<noteq> upperhex (byte c div 16)" and "x \<noteq> upperhex (byte c mod 16)"
    using assms(2) hex [OF d] hex [OF m] by auto
  moreover have "x \<noteq> CHR ''%''" and "x \<noteq> CHR ''+''"
    using assms(2) by auto
  moreover have "\<not> shouldEscape c mode \<Longrightarrow> x \<noteq> c"
    using assms(1) by auto
  ultimately show ?case
    using Cons by auto
qed

lemma separators_escaped:
  "shouldEscape (CHR ''?'') encodePath" "shouldEscape (CHR ''#'') encodePath"
  "shouldEscape (CHR ''?'') encodeHost" "shouldEscape (CHR ''#'') encodeHost"
  "shouldEscape (CHR ''?'') encodeUserPassword" "shouldEscape (CHR ''#'') encodeUserPassword"
  "shouldEscape (CHR ''#'') encodeQueryComponent"
  by code_simp+

lemma separators_not_hex:
  "CHR ''?'' \<notin> set ''%+0123456789ABCDEF''" "CHR ''#'' \<notin> set ''%+0123456789ABCDEF''"
  by simp_all

lemma escape_no_separator:
  "mode = encodePath \<or> mode = encodeHost \<or> mode = encodeUserPassword \<Longrightarrow>
     CHR ''?'' \<notin> set (escape s mode) \<and> CHR ''#'' \<notin> set (escape s mode)"
  using escaped_char_absent [OF _ separators_not_hex(1), of mode s]
    escaped_char_absent [OF _ separators_not_hex(2), of mode s] separators_escaped
  by auto

lemma Userinfo_String_no_separator:
  "CHR ''?'' \<notin> set (Userinfo_String ui) \<and> CHR ''#'' \<notin> set (Userinfo_String ui)"
  using escape_no_separator [of encodeUserPassword]
  by (simp add: Userinfo_String_def Let_def)

lemma validEncoded_no_separator:
  assumes "validEncoded p encodePath"
  shows "CHR ''?'' \<notin> set p \<and> CHR ''#'' \<notin> set p"
proof -
  have "\<And>c. c \<in> set p \<Longrightarrow> c \<in> set (''!$&()*+,;=:@[]%'' @ [CHR 0x27]) \<or> \<not> shouldEscape c encodePath"
    using assms unfolding validEncoded_def list_all_iff by blast
  moreover have "CHR ''?'' \<notin> set (''!$&()*+,;=:@[]%'' @ [CHR 0x27])"
      "CHR ''#'' \<notin> set (''!$&()*+,;=:@[]%'' @ [CHR 0x27])"
    by simp_all
  ultimately show ?thesis
    using separators_escaped(1,2) by blast
qed

lemma EscapedPath_no_separator:
  "CHR ''?'' \<notin> set (EscapedPath u) \<and> CHR ''#'' \<notin> set (EscapedPath u)"
  using validEncoded_no_separator [of "RawPath u"] escape_no_separator [of encodePath "Path u"]
  by (simp add: EscapedPath_def)

lemma scheme_chars_no_separator:
  assumes "scheme_chars sch"
  shows "CHR ''?'' \<notin> set sch \<and> CHR ''#'' \<notin> set sch"
proof -
  have "\<not> isAlnum (CHR ''?'')" "\<not> isAlnum (CHR ''#'')" "CHR ''?'' \<notin> set ''+-.''" "CHR ''#'' \<notin> set ''+-.''"
    by code_simp+
  then show ?thesis
    using assms unfolding scheme_chars_def list_all_iff by blast
qed

lemma no_separator_simps [simp]:
  "no_separator []"
  "no_separator (a @ b) \<longleftrightarrow> no_separator a \<and> no_separator b"
  "no_separator (c # s) \<longleftrightarrow> c \<noteq> CHR ''?'' \<and> c \<noteq> CHR ''#'' \<and> no_separator s"
  by (auto simp: no_separator_def)

lemma URL_String_split:
  assumes "Opaque u = []"
  shows "URL_String u =
           URL_String_prefix u @
           (if ForceQuery u \<or> RawQuery u \<noteq> [] then CHR ''?'' # RawQuery u else []) @
           (if Fragment u \<noteq> [] then CHR ''#'' # EscapedFragment u else [])"
  using assms by (simp add: URL_String_def URL_String_prefix_def Let_def)

lemma URL_String_prefix_no_separator:
  assumes "scheme_chars (Scheme u)"
  shows "no_separator (URL_String_prefix u)"
proof -
  have s: "no_separator (Scheme u)"
    using scheme_chars_no_separator [OF assms] by (simp add: no_separator_def)
  have h: "no_separator (escape (Host u) encodeHost)"
    using escape_no_separator [of encodeHost "Host u"] by (simp add: no_separator_def)
  have p: "no_separator (EscapedPath u)"
    using EscapedPath_no_separator [of u] by (simp add: no_separator_def)
  have ui: "\<And>ui. no_separator (Userinfo_String ui)"
    using Userinfo_String_no_separator by (simp add: no_separator_def)
  show ?thesis
    unfolding URL_String_prefix_def Let_def
    using s h p ui by (simp split: option.split)
qed

lemma url_string_query_of_String:
  assumes "Opaque u = []" and "scheme_chars (Scheme u)" and "CHR ''#'' \<notin> set (RawQuery u)"
  shows "url_string_query (URL_String u) = RawQuery u"
proof -
  let ?pre = "URL_String_prefix u"
  let ?Q = "(if ForceQuery u \<or> RawQuery u \<noteq> [] then CHR ''?'' # RawQuery u else [])"
  let ?F = "(if Fragment u \<noteq> [] then CHR ''#'' # EscapedFragment u else [])"
  have str: "URL_String u = ?pre @ ?Q @ ?F"
    using assms(1) by (rule URL_String_split)
  have pre: "CHR ''?'' \<notin> set ?pre" "CHR ''#'' \<notin> set ?pre"
    using URL_String_prefix_no_separator [OF assms(2)] by (simp_all add: no_separator_def)
  have hashQ: "CHR ''#'' \<notin> set (?pre @ ?Q)"
    using pre(2) assms(3) by simp
  have 1: "fst (Cut (URL_String u) (CHR ''#'')) = ?pre @ ?Q"
  proof (cases "Fragment u = []")
    case True
    then show ?thesis
      using str Cut_absent [OF hashQ] by simp
  next
    case False
    then have "URL_String u = (?pre @ ?Q) @ CHR ''#'' # EscapedFragment u"
      using str by simp
    then show ?thesis
      using Cut_found [OF hashQ, of "EscapedFragment u"] by simp
  qed
  have 2: "fst (snd (Cut (?pre @ ?Q) (CHR ''?''))) = RawQuery u"
  proof (cases "ForceQuery u \<or> RawQuery u \<noteq> []")
    case True
    then have "?pre @ ?Q = ?pre @ CHR ''?'' # RawQuery u"
      by simp
    then show ?thesis
      using Cut_found [OF pre(1), of "RawQuery u"] by simp
  next
    case False
    then have "?pre @ ?Q = ?pre" and "RawQuery u = []"
      by simp_all
    then show ?thesis
      using Cut_absent [OF pre(1)] by simp
  qed
  show ?thesis
    unfolding url_string_query_def 1 2 ..
qed

lemma Values_Encode_no_hash: "CHR ''#'' \<notin> set (Values_Encode v)"
proof -
  have e: "\<And>s. CHR ''#'' \<notin> set (QueryEscape s)"
    unfolding QueryEscape_def
    using escaped_char_absent [OF separators_escaped(7) separators_not_hex(2)] by simp
  have j: "\<And>items. (\<forall>i\<in>set items. CHR ''#'' \<notin> set i) \<Longrightarrow> CHR ''#'' \<notin> set (Join_sep items ''&'')"
  proof -
    fix items :: "string list"
    show "(\<forall>i\<in>set items. CHR ''#'' \<notin> set i) \<Longrightarrow> CHR ''#'' \<notin> set (Join_sep items ''&'')"
      by (induction items "''&''" rule: Join_sep.induct) auto
  qed
  have "\<forall>i\<in>set (map encode_pair (sorted_pairs v)). CHR ''#'' \<notin> set i"
    using e by (auto simp: encode_pair_def)
  then show ?thesis
    unfolding Values_Encode_pairs by (rule j)
qed

lemma scheme_char_not_question:
  "isLetter c \<or> (byte (CHR ''0'') \<le> byte c \<and> byte c \<le> byte (CHR ''9'')) \<or> c \<in> set ''+-.'' \<Longrightarrow>
     c \<noteq> CHR ''?''"
proof
  assume a: "isLetter c \<or> (byte (CHR ''0'') \<le> byte c \<and> byte c \<le> byte (CHR ''9'')) \<or> c \<in> set ''+-.''"
  assume c: "c = CHR ''?''"
  have "\<not> (isLetter (CHR ''?'') \<or>
      (byte (CHR ''0'') \<le> byte (CHR ''?'') \<and> byte (CHR ''?'') \<le> byte (CHR ''9'')) \<or>
      CHR ''?'' \<in> set ''+-.'')"
    by code_simp
  then show False
    using a c by simp
qed

lemma getScheme_from_shape:
  "getScheme_from raw seen s = Inr (sch, rest) \<Longrightarrow> CHR ''?'' \<notin> set seen \<Longrightarrow>
     (sch = [] \<and> rest = raw) \<or> (seen @ s = sch @ CHR '':'' # rest \<and> CHR ''?'' \<notin> set sch)"
proof (induction s arbitrary: seen)
  case Nil
  then show ?case by simp
next
  case (Cons c cs)
  show ?case
  proof (cases "isLetter c \<or> (byte (CHR ''0'') \<le> byte c \<and> byte c \<le> byte (CHR ''9'')) \<or> c \<in> set ''+-.''")
    case True
    then have q: "c \<noteq> CHR ''?''"
      by (rule scheme_char_not_question)
    show ?thesis
    proof (cases "\<not> isLetter c \<and> seen = []")
      case True
      then show ?thesis
        using Cons.prems \<open>isLetter c \<or> _\<close> by (auto split: if_splits)
    next
      case False
      then have "getScheme_from raw seen (c # cs) = getScheme_from raw (seen @ [c]) cs"
        using True by auto
      then have "getScheme_from raw (seen @ [c]) cs = Inr (sch, rest)"
        using Cons.prems(1) by simp
      moreover have "CHR ''?'' \<notin> set (seen @ [c])"
        using Cons.prems(2) q by simp
      ultimately show ?thesis
        using Cons.IH [of "seen @ [c]"] by simp
    qed
  next
    case False
    then show ?thesis
      using Cons.prems by (auto split: if_splits)
  qed
qed

lemma Cut_skip_prefix:
  "sep \<notin> set a \<Longrightarrow> fst (snd (Cut (a @ b) sep)) = fst (snd (Cut b sep))"
proof -
  assume a: "sep \<notin> set a"
  have d: "dropWhile (\<lambda>c. c \<noteq> sep) (a @ b) = dropWhile (\<lambda>c. c \<noteq> sep) b"
    using a by (induction a) auto
  show ?thesis
  proof (cases "dropWhile (\<lambda>c. c \<noteq> sep) b")
    case Nil
    show ?thesis
      unfolding Cut_def d by (simp only: Nil list.case fst_conv snd_conv)
  next
    case (Cons x after)
    show ?thesis
      unfolding Cut_def d by (simp only: Cons list.case fst_conv snd_conv)
  qed
qed

lemma Cut_forced:
  assumes "rest0 \<noteq> []" and "last rest0 = CHR ''?''" and "count_list rest0 (CHR ''?'') = 1"
  shows "fst (snd (Cut rest0 (CHR ''?''))) = []"
proof -
  have r: "rest0 = butlast rest0 @ [CHR ''?'']"
    using assms(1,2) by (metis append_butlast_last_id)
  then have "count_list (butlast rest0 @ [CHR ''?'']) (CHR ''?'') = 1"
    using assms(3) by simp
  then have "count_list (butlast rest0) (CHR ''?'') = 0"
    by simp
  then have "CHR ''?'' \<notin> set (butlast rest0)"
    by (simp add: count_list_0_iff)
  then have "Cut (butlast rest0 @ CHR ''?'' # []) (CHR ''?'') = (butlast rest0, [], True)"
    by (rule Cut_found)
  then show ?thesis
    using r by simp
qed

lemma setPath_RawQuery: "setPath u p = Inr u' \<Longrightarrow> RawQuery u' = RawQuery u"
  by (auto simp: setPath_def split: sum.splits)

lemma setFragment_RawQuery: "setFragment u f = Inr u' \<Longrightarrow> RawQuery u' = RawQuery u"
  by (auto simp: setFragment_def split: sum.splits)

lemma parse_RawQuery:
  assumes "parse pa s = Inr u"
  shows "RawQuery u = fst (snd (Cut s (CHR ''?'')))"
proof (cases "s = ''*''")
  case True
  then have "u = new_URL\<lparr>Path := ''*''\<rparr>"
    using assms by (simp add: parse_def stringContainsCTLByte_def byte_def)
  then show ?thesis
    using True by (simp add: new_URL_def Cut_def)
next
  case False
  then have ctl: "\<not> stringContainsCTLByte s"
    using assms by (auto simp: parse_def split: if_splits)
  obtain scheme rest0 where gs: "getScheme s = Inr (scheme, rest0)"
    using assms False ctl by (auto simp: parse_def split: sum.splits)
  have keep: "RawQuery u = fst (snd (Cut rest0 (CHR ''?'')))"
  proof (cases "rest0 \<noteq> [] \<and> last rest0 = CHR ''?'' \<and> count_list rest0 (CHR ''?'') = 1")
    case True
    then have e: "fst (snd (Cut rest0 (CHR ''?''))) = []"
      using Cut_forced by blast
    have "RawQuery u = []"
      using assms False ctl gs True setPath_RawQuery
      unfolding parse_def Let_def
      by (auto simp: new_URL_def split: if_splits sum.splits prod.splits)
    then show ?thesis
      using e by simp
  next
    case no: False
    show ?thesis
      using assms False ctl gs no setPath_RawQuery
      unfolding parse_def Let_def
      by (auto simp: new_URL_def split: if_splits sum.splits prod.splits)
  qed
  have "fst (snd (Cut rest0 (CHR ''?''))) = fst (snd (Cut s (CHR ''?'')))"
  proof -
    have "(scheme = [] \<and> rest0 = s) \<or> ([] @ s = scheme @ CHR '':'' # rest0 \<and> CHR ''?'' \<notin> set scheme)"
      using gs getScheme_from_shape [of s "[]" s scheme rest0] by (simp add: getScheme_def)
    then show ?thesis
    proof
      assume "scheme = [] \<and> rest0 = s"
      then show ?thesis by simp
    next
      assume a: "[] @ s = scheme @ CHR '':'' # rest0 \<and> CHR ''?'' \<notin> set scheme"
      then have "s = (scheme @ '':'') @ rest0" and "CHR ''?'' \<notin> set (scheme @ '':'')"
        by simp_all
      then show ?thesis
        using Cut_skip_prefix [of "CHR ''?''" "scheme @ '':''" rest0] by simp
    qed
  qed
  then show ?thesis
    using keep by simp
qed

lemma url_Parse_RawQuery:
  assumes "url_Parse pa str = Inr u"
  shows "RawQuery u = url_string_query str"
proof -
  obtain u0 frag found where c: "Cut str (CHR ''#'') = (u0, frag, found)"
    by (cases "Cut str (CHR ''#'')")
  obtain url where p: "parse pa u0 = Inr url"
    using assms c by (auto simp: url_Parse_def split: sum.splits)
  have "RawQuery u = RawQuery url"
    using assms c p setFragment_RawQuery [of url frag u]
    by (auto simp: url_Parse_def split: if_splits sum.splits)
  then show ?thesis
    using parse_RawQuery [OF p] c by (simp add: url_string_query_def)
qed

subsection \<open>The three validation URLs\<close>

lemma endpoint_segments:
  "list_all plain_segment [''serviceValidate'']" "list_all plain_segment [''validate'']"
  "list_all plain_segment [''p3'', ''serviceValidate'']"
  by code_simp+

text \<open>
  On a CAS server URL of the usual shape, that is with a scheme, a plain host, no user
  information and a path that is empty or made of plain segments, the three builders
  return no error and keep the path: \<^verbatim>\<open>ServiceValidateUrl\<close> returns scheme, "://", host,
  path, "/serviceValidate", \<^verbatim>\<open>ValidateUrl1\<close> the same with "/validate" and \<^verbatim>\<open>ValidateUrl3\<close>
  with "/p3/serviceValidate", each followed by "?service=", the query-escaped result of
  \<^verbatim>\<open>sanitisedURLString\<close> for the service URL, "&ticket=" and the query-escaped ticket.
\<close>

lemma validation_urls_plain_base:
  assumes "Scheme (casURL v) \<noteq> []" and "plain_host (Host (casURL v))"
    and "URL_User (casURL v) = None"
    and "Path (casURL v) = rooted_path segs" and "list_all plain_segment segs"
  shows "ServiceValidateUrl x v s t =
           Inr (Scheme (casURL v) @ ''://'' @ Host (casURL v) @ Path (casURL v) @
                ''/serviceValidate'' @
                ''?service='' @ QueryEscape (ext_sanitisedURLString x s) @
                ''&ticket='' @ QueryEscape t) \<and>
         ValidateUrl1 x v s t =
           Inr (Scheme (casURL v) @ ''://'' @ Host (casURL v) @ Path (casURL v) @
                ''/validate'' @
                ''?service='' @ QueryEscape (ext_sanitisedURLString x s) @
                ''&ticket='' @ QueryEscape t) \<and>
         ValidateUrl3 x v s t =
           Inr (Scheme (casURL v) @ ''://'' @ Host (casURL v) @ Path (casURL v) @
                ''/p3/serviceValidate'' @
                ''?service='' @ QueryEscape (ext_sanitisedURLString x s) @
                ''&ticket='' @ QueryEscape t)"
proof (intro conjI)
  show "ServiceValidateUrl x v s t =
           Inr (Scheme (casURL v) @ ''://'' @ Host (casURL v) @ Path (casURL v) @
                ''/serviceValidate'' @
                ''?service='' @ QueryEscape (ext_sanitisedURLString x s) @
                ''&ticket='' @ QueryEscape t)"
    unfolding ServiceValidateUrl_def
    using builder_core_any [OF assms endpoint_segments(1), where pa = "ext_parseAuthority x"
        and sv = "ext_sanitisedURLString x s" and t = t]
    by simp
next
  show "ValidateUrl1 x v s t =
           Inr (Scheme (casURL v) @ ''://'' @ Host (casURL v) @ Path (casURL v) @
                ''/validate'' @
                ''?service='' @ QueryEscape (ext_sanitisedURLString x s) @
                ''&ticket='' @ QueryEscape t)"
    unfolding ValidateUrl1_def
    using builder_core_any [OF assms endpoint_segments(2), where pa = "ext_parseAuthority x"
        and sv = "ext_sanitisedURLString x s" and t = t]
    by simp
next
  show "ValidateUrl3 x v s t =
           Inr (Scheme (casURL v) @ ''://'' @ Host (casURL v) @ Path (casURL v) @
                ''/p3/serviceValidate'' @
                ''?service='' @ QueryEscape (ext_sanitisedURLString x s) @
                ''&ticket='' @ QueryEscape t)"
    unfolding ValidateUrl3_def
    using builder_core_any [OF assms endpoint_segments(3), where pa = "ext_parseAuthority x"
        and sv = "ext_sanitisedURLString x s" and t = t]
    by simp
qed

lemma example_cas_shape:
  "Scheme (casURL (example_validator code body)) \<noteq> []"
  "plain_host (Host (casURL (example_validator code body)))"
  "URL_User (casURL (example_validator code body)) = None"
  "Path (casURL (example_validator code body)) = rooted_path [''cas'']"
  by code_simp+

lemma cas_segment: "list_all plain_segment [''cas'']"
  by code_simp

lemma example_cas_fields:
  "Scheme (casURL (example_validator code body)) = ''https''"
  "Host (casURL (example_validator code body)) = ''sso.example.com''"
  "Path (casURL (example_validator code body)) = ''/cas''"
  by code_simp+

lemma example_escapes:
  "QueryEscape (ext_sanitisedURLString example_externals example_service) =
     ''https%3A%2F%2Fapp.example.com%2Fhome''"
  "QueryEscape ''ST-123'' = ''ST-123''"
  by code_simp+

lemma validation_urls_example:
  "ServiceValidateUrl example_externals (example_validator 200 []) example_service ''ST-123'' =
     Inr ''https://sso.example.com/cas/serviceValidate?service=https%3A%2F%2Fapp.example.com%2Fhome&ticket=ST-123'' \<and>
   ValidateUrl1 example_externals (example_validator 200 []) example_service ''ST-123'' =
     Inr ''https://sso.example.com/cas/validate?service=https%3A%2F%2Fapp.example.com%2Fhome&ticket=ST-123'' \<and>
   ValidateUrl3 example_externals (example_validator 200 []) example_service ''ST-123'' =
     Inr ''https://sso.example.com/cas/p3/serviceValidate?service=https%3A%2F%2Fapp.example.com%2Fhome&ticket=ST-123''"
  using validation_urls_plain_base
    [OF example_cas_shape [of 200 "[]"] cas_segment,
      where x = example_externals and s = example_service and t = "''ST-123''"]
  by (simp add: example_cas_fields example_escapes)

lemma percent_cas_strings:
  "URL_String percent_cas = ''https://sso.example.com/a%25b''"
  "URL_String twice_escaped_cas = ''https://sso.example.com/a%2525b''"
  by code_simp+

text \<open>
  Claim C6. The three builders are to keep the base path of every CAS server URL:
  \<^verbatim>\<open>ServiceValidateUrl\<close> is to yield the base followed by "/serviceValidate", \<^verbatim>\<open>ValidateUrl1\<close>
  by "/validate" and \<^verbatim>\<open>ValidateUrl3\<close> by "/p3/serviceValidate". The code joins the decoded
  path of the server URL with the endpoint and hands the result to the URL parser as a
  reference, and the parser decodes it once more. For the server URL that \<^verbatim>\<open>url.Parse\<close>
  returns for \<^verbatim>\<open>https://sso.example.com/a%25b\<close>, whose path is \<^verbatim>\<open>/a%b\<close>, each builder
  returns the parser's error and no URL. For the one it returns for
  \<^verbatim>\<open>https://sso.example.com/a%2525b\<close>, whose path is \<^verbatim>\<open>/a%25b\<close>, \<^verbatim>\<open>ServiceValidateUrl\<close>
  returns a URL with the path of the former.
\<close>

theorem validation_urls_decoded_path:
  "url_Parse host_only ''https://sso.example.com/a%25b'' = Inr percent_cas \<and>
   ServiceValidateUrl example_externals
       (NewServiceTicketValidator (server_answering 200 []) percent_cas ''CAS2'')
       example_service ''ST-123'' =
     Inl (url_Error ''parse'' ''/a%b/serviceValidate'' (EscapeError ''%b/'')) \<and>
   ValidateUrl1 example_externals
       (NewServiceTicketValidator (server_answering 200 []) percent_cas ''CAS1'')
       example_service ''ST-123'' =
     Inl (url_Error ''parse'' ''/a%b/validate'' (EscapeError ''%b/'')) \<and>
   ValidateUrl3 example_externals
       (NewServiceTicketValidator (server_answering 200 []) percent_cas ''CAS3'')
       example_service ''ST-123'' =
     Inl (url_Error ''parse'' ''/a%b/p3/serviceValidate'' (EscapeError ''%b/'')) \<and>
   url_Parse host_only ''https://sso.example.com/a%2525b'' = Inr twice_escaped_cas \<and>
   ServiceValidateUrl example_externals
       (NewServiceTicketValidator (server_answering 200 []) twice_escaped_cas ''CAS2'')
       example_service ''ST-123'' =
     Inr ''https://sso.example.com/a%25b/serviceValidate?service=https%3A%2F%2Fapp.example.com%2Fhome&ticket=ST-123''"
  by code_simp

subsection \<open>The sanitised service URL\<close>

lemma sanitisedURL_has_no_ticket: "''ticket'' \<notin> fst ` set (URL_Query (sanitisedURL u))"
proof -
  have "fst ` set (URL_Query (sanitisedURL u)) \<subseteq> fst ` set (Values_Del (URL_Query u) ''ticket'')"
    using Query_of_Encode_keys [of "Values_Del (URL_Query u) ''ticket''"]
    by (simp add: URL_Query_def sanitisedURL_def)
  moreover have "''ticket'' \<notin> fst ` set (Values_Del (URL_Query u) ''ticket'')"
    by (auto simp: Values_Del_def)
  ultimately show ?thesis
    by blast
qed

lemma sanitised_string_parses_without_ticket:
  assumes "Opaque s = []" and "scheme_chars (Scheme s)"
    and "url_Parse pa (sanitisedURLString s) = Inr u"
  shows "''ticket'' \<notin> set (map fst (URL_Query u))"
proof -
  have "RawQuery u = url_string_query (URL_String (sanitisedURL s))"
    using url_Parse_RawQuery [OF assms(3)] by (simp add: sanitisedURLString_def)
  also have "\<dots> = RawQuery (sanitisedURL s)"
    using assms(1,2) Values_Encode_no_hash
    by (intro url_string_query_of_String) (simp_all add: sanitisedURL_def)
  finally have "URL_Query u = URL_Query (sanitisedURL s)"
    by (simp add: URL_Query_def)
  then show ?thesis
    using sanitisedURL_has_no_ticket [of s] by simp
qed

text \<open>
  Claim C7. With \<^verbatim>\<open>sanitisedURLString\<close> as modelled from the specification, and a service
  URL that is not opaque and has a well-formed scheme (or none): whatever URL the
  sanitised service string parses to, its query has no key \<^verbatim>\<open>ticket\<close>; and for a CAS
  server URL of the usual shape each of the three validation URLs carries, as its
  \<^verbatim>\<open>service\<close> parameter, exactly that sanitised string, query-escaped.
\<close>

theorem sanitised_service_has_no_ticket:
  assumes "ext_sanitisedURLString x = sanitisedURLString"
    and "Opaque s = []" and "scheme_chars (Scheme s)"
    and "Scheme (casURL v) \<noteq> []" and "plain_host (Host (casURL v))"
    and "URL_User (casURL v) = None"
    and "Path (casURL v) = rooted_path segs" and "list_all plain_segment segs"
  shows "(url_Parse pa (sanitisedURLString s) = Inr u \<longrightarrow>
            ''ticket'' \<notin> set (map fst (URL_Query u))) \<and>
         ServiceValidateUrl x v s t =
           Inr (Scheme (casURL v) @ ''://'' @ Host (casURL v) @ Path (casURL v) @
                ''/serviceValidate'' @
                ''?service='' @ QueryEscape (sanitisedURLString s) @
                ''&ticket='' @ QueryEscape t) \<and>
         ValidateUrl1 x v s t =
           Inr (Scheme (casURL v) @ ''://'' @ Host (casURL v) @ Path (casURL v) @
                ''/validate'' @
                ''?service='' @ QueryEscape (sanitisedURLString s) @
                ''&ticket='' @ QueryEscape t) \<and>
         ValidateUrl3 x v s t =
           Inr (Scheme (casURL v) @ ''://'' @ Host (casURL v) @ Path (casURL v) @
                ''/p3/serviceValidate'' @
                ''?service='' @ QueryEscape (sanitisedURLString s) @
                ''&ticket='' @ QueryEscape t)"
proof (intro conjI impI)
  assume "url_Parse pa (sanitisedURLString s) = Inr u"
  then show "''ticket'' \<notin> set (map fst (URL_Query u))"
    using assms(2,3) by (intro sanitised_string_parses_without_ticket)
next
  show "ServiceValidateUrl x v s t =
           Inr (Scheme (casURL v) @ ''://'' @ Host (casURL v) @ Path (casURL v) @
                ''/serviceValidate'' @
                ''?service='' @ QueryEscape (sanitisedURLString s) @
                ''&ticket='' @ QueryEscape t)"
    unfolding ServiceValidateUrl_def
    using builder_core_any [OF assms(4-8) endpoint_segments(1), where pa = "ext_parseAuthority x"
        and sv = "ext_sanitisedURLString x s" and t = t] assms(1)
    by simp
next
  show "ValidateUrl1 x v s t =
           Inr (Scheme (casURL v) @ ''://'' @ Host (casURL v) @ Path (casURL v) @
                ''/validate'' @
                ''?service='' @ QueryEscape (sanitisedURLString s) @
                ''&ticket='' @ QueryEscape t)"
    unfolding ValidateUrl1_def
    using builder_core_any [OF assms(4-8) endpoint_segments(2), where pa = "ext_parseAuthority x"
        and sv = "ext_sanitisedURLString x s" and t = t] assms(1)
    by simp
next
  show "ValidateUrl3 x v s t =
           Inr (Scheme (casURL v) @ ''://'' @ Host (casURL v) @ Path (casURL v) @
                ''/p3/serviceValidate'' @
                ''?service='' @ QueryEscape (sanitisedURLString s) @
                ''&ticket='' @ QueryEscape t)"
    unfolding ValidateUrl3_def
    using builder_core_any [OF assms(4-8) endpoint_segments(3), where pa = "ext_parseAuthority x"
        and sv = "ext_sanitisedURLString x s" and t = t] assms(1)
    by simp
qed

lemma ticket_service_shape:
  "Opaque ticket_service = []" "scheme_chars (Scheme ticket_service)"
  "''ticket'' \<in> set (map fst (URL_Query ticket_service))"
  by code_simp+

lemma ticket_service_sanitised:
  "sanitisedURLString ticket_service = ''https://app.example.com/home?page=2''"
  "QueryEscape ''https://app.example.com/home?page=2'' = ''https%3A%2F%2Fapp.example.com%2Fhome%3Fpage%3D2''"
  by code_simp+

lemma ticket_service_parsed:
  "url_Parse host_only ''https://app.example.com/home?page=2'' =
     Inr (new_URL\<lparr>Scheme := ''https'', Host := ''app.example.com'', Path := ''/home'',
            RawQuery := ''page=2''\<rparr>)"
  by code_simp

theorem sanitised_service_has_no_ticket_witness:
  "''ticket'' \<in> set (map fst (URL_Query ticket_service)) \<and>
   sanitisedURLString ticket_service = ''https://app.example.com/home?page=2'' \<and>
   ''ticket'' \<notin> set (map fst (URL_Query
      (new_URL\<lparr>Scheme := ''https'', Host := ''app.example.com'', Path := ''/home'',
         RawQuery := ''page=2''\<rparr>))) \<and>
   ServiceValidateUrl spec_externals (example_validator 200 []) ticket_service ''ST-123'' =
     Inr ''https://sso.example.com/cas/serviceValidate?service=https%3A%2F%2Fapp.example.com%2Fhome%3Fpage%3D2&ticket=ST-123'' \<and>
   ValidateUrl1 spec_externals (example_validator 200 []) ticket_service ''ST-123'' =
     Inr ''https://sso.example.com/cas/validate?service=https%3A%2F%2Fapp.example.com%2Fhome%3Fpage%3D2&ticket=ST-123'' \<and>
   ValidateUrl3 spec_externals (example_validator 200 []) ticket_service ''ST-123'' =
     Inr ''https://sso.example.com/cas/p3/serviceValidate?service=https%3A%2F%2Fapp.example.com%2Fhome%3Fpage%3D2&ticket=ST-123''"
proof -
  have x: "ext_sanitisedURLString spec_externals = sanitisedURLString"
    by (simp add: spec_externals_def)
  have p: "url_Parse host_only (sanitisedURLString ticket_service) =
      Inr (new_URL\<lparr>Scheme := ''https'', Host := ''app.example.com'', Path := ''/home'',
             RawQuery := ''page=2''\<rparr>)"
    using ticket_service_parsed by (simp only: ticket_service_sanitised(1))
  note w = sanitised_service_has_no_ticket
    [OF x ticket_service_shape(1,2) example_cas_shape [of 200 "[]"] cas_segment,
      where t = "''ST-123''" and pa = host_only
      and u = "new_URL\<lparr>Scheme := ''https'', Host := ''app.example.com'', Path := ''/home'',
             RawQuery := ''page=2''\<rparr>"]
  have 1: "''ticket'' \<notin> set (map fst (URL_Query
      (new_URL\<lparr>Scheme := ''https'', Host := ''app.example.com'', Path := ''/home'',
         RawQuery := ''page=2''\<rparr>)))"
    by (rule w [THEN conjunct1, THEN mp, OF p])
  have 2: "ServiceValidateUrl spec_externals (example_validator 200 []) ticket_service ''ST-123'' =
     Inr ''https://sso.example.com/cas/serviceValidate?service=https%3A%2F%2Fapp.example.com%2Fhome%3Fpage%3D2&ticket=ST-123''"
    using w [THEN conjunct2, THEN conjunct1]
    by (simp add: example_cas_fields ticket_service_sanitised example_escapes(2))
  have 3: "ValidateUrl1 spec_externals (example_validator 200 []) ticket_service ''ST-123'' =
     Inr ''https://sso.example.com/cas/validate?service=https%3A%2F%2Fapp.example.com%2Fhome%3Fpage%3D2&ticket=ST-123''"
    using w [THEN conjunct2, THEN conjunct2, THEN conjunct1]
    by (simp add: example_cas_fields ticket_service_sanitised example_escapes(2))
  have 4: "ValidateUrl3 spec_externals (example_validator 200 []) ticket_service ''ST-123'' =
     Inr ''https://sso.example.com/cas/p3/serviceValidate?service=https%3A%2F%2Fapp.example.com%2Fhome%3Fpage%3D2&ticket=ST-123''"
    using w [THEN conjunct2, THEN conjunct2, THEN conjunct2]
    by (simp add: example_cas_fields ticket_service_sanitised example_escapes(2))
  show ?thesis
    using ticket_service_shape(3) ticket_service_sanitised(1) 1 2 3 4 by (intro conjI)
qed

end
